theory Spec2Isabelle
  imports Complex_Main "HOL-Library.AList" "HOL-Library.Char_ord" "HOL-Library.List_Lexorder"
begin

unbundle bit_operations_syntax

section \<open>Wires, errors and NumPy helpers\<close>

text \<open>
  A wire label is an integer or a string.  A \<open>Wires\<close> collection is an ordered list of
  labels without duplicates; the device wire registry is such a list.
\<close>

datatype wire = WInt int | WStr string

text \<open>The exceptions raised by the modelled code, as values.\<close>

datatype error =
    WireError
  | ValueError
  | IndexError
  | TypeError
  | ZeroDivisionError
  | QuantumFunctionError
  | NotImplementedError
  | EigvalsUndefinedError
  | DeviceError
  | UnboundLocalError

text \<open>\<open>Wires(xs)\<close>: the constructor refuses duplicate labels.\<close>

definition Wires :: "wire list \<Rightarrow> error + wire list" where
  "Wires xs = (if distinct xs then Inr xs else Inl WireError)"

text \<open>Position of the first occurrence of a label in a list.\<close>

fun index_of :: "'a list \<Rightarrow> 'a \<Rightarrow> nat option" where
  "index_of [] x = None"
| "index_of (y # ys) x = (if x = y then Some 0 else map_option Suc (index_of ys x))"

text \<open>Reading a list at a non-negative index; Python raises out of range.\<close>

definition list_get :: "'a list \<Rightarrow> nat \<Rightarrow> error + 'a" where
  "list_get xs i = (if i < length xs then Inr (xs ! i) else Inl IndexError)"

text \<open>Running a fallible function over a list, stopping at the first error.\<close>

fun map_err :: "('a \<Rightarrow> error + 'b) \<Rightarrow> 'a list \<Rightarrow> error + 'b list" where
  "map_err f [] = Inr []"
| "map_err f (x # xs) =
     (case f x of
        Inl e \<Rightarrow> Inl e
      | Inr y \<Rightarrow> (case map_err f xs of Inl e \<Rightarrow> Inl e | Inr ys \<Rightarrow> Inr (y # ys)))"

text \<open>
  \<open>np.argsort\<close>: the indices that sort the keys.  The model sorts stably; on the
  duplicate-free keys the code passes (device indices of a \<open>Wires\<close> object) the result
  does not depend on the sorting algorithm.
\<close>

definition argsort :: "nat list \<Rightarrow> nat list" where
  "argsort ks = map snd (sort_key fst (zip ks [0..<length ks]))"

section \<open>Wire Mapper\<close>

text \<open>
  Modelled from the spec: \<open>Device.map_wires\<close> lives in the device base class, which is
  not part of the sources at hand.  It looks each label up in the device wire registry
  and fails if a label is absent.
\<close>

definition map_wires :: "wire list \<Rightarrow> wire list \<Rightarrow> error + nat list" where
  "map_wires dev_wires ws =
     map_err (\<lambda>w. case index_of dev_wires w of None \<Rightarrow> Inl WireError | Some i \<Rightarrow> Inr i) ws"

text \<open>
  Modelled from the spec: \<open>Device.order_wires\<close>, also of the device base class, returns
  the given wires re-ordered to the registry order, a stable sort by registry position.
\<close>

definition order_wires :: "wire list \<Rightarrow> wire list \<Rightarrow> error + wire list" where
  "order_wires dev_wires ws =
     (case map_wires dev_wires ws of
        Inl e \<Rightarrow> Inl e
      | Inr ps \<Rightarrow> Inr (map snd (sort_key fst (zip ps ws))))"

text \<open>
  \<open>QubitDevice._permute_wires\<close>, given the wires of the observable.  The index read
  \<open>ordered_obs_wire_lst[index]\<close> and the final \<open>Wires(...)\<close> constructor can both raise.
\<close>

definition permute_wires :: "wire list \<Rightarrow> wire list \<Rightarrow> error + wire list" where
  "permute_wires dev_wires obs_wires =
     (case order_wires dev_wires obs_wires of
        Inl e \<Rightarrow> Inl e
      | Inr ordered_obs_wire_lst \<Rightarrow>
          (case map_wires dev_wires obs_wires of
             Inl e \<Rightarrow> Inl e
           | Inr mapped_wires \<Rightarrow>
               (let permutation = argsort mapped_wires in
                case map_err (list_get ordered_obs_wire_lst) permutation of
                  Inl e \<Rightarrow> Inl e
                | Inr picked \<Rightarrow> Wires picked)))"

text \<open>
  The four steps as the specification words them, on total functions: \<open>ordered\<close> is the
  observable's wires in device order, \<open>mapped\<close> their device indices, \<open>perm\<close> the
  argsort of \<open>mapped\<close>, and the result is \<open>ordered\<close> re-indexed by \<open>perm\<close>.
\<close>

definition device_index :: "wire list \<Rightarrow> wire \<Rightarrow> nat" where
  "device_index dev_wires w = (case index_of dev_wires w of None \<Rightarrow> length dev_wires | Some i \<Rightarrow> i)"

definition permute_for_observable_spec :: "wire list \<Rightarrow> wire list \<Rightarrow> wire list" where
  "permute_for_observable_spec dev_wires obs_wires =
     (let ordered = filter (\<lambda>w. w \<in> set obs_wires) dev_wires;
          mapped = map (device_index dev_wires) obs_wires;
          perm = argsort mapped
      in map (\<lambda>i. ordered ! i) perm)"

section \<open>Basis states and binary conversion\<close>

text \<open>
  NumPy's fixed-width integers are modelled as mathematical integers wrapped into the
  range of the array's dtype after each operation.
\<close>

datatype dtype = Int8 | Int64 | UInt32

fun wrap :: "dtype \<Rightarrow> int \<Rightarrow> int" where
  "wrap Int8 x = signed_take_bit 7 x"
| "wrap Int64 x = signed_take_bit 63 x"
| "wrap UInt32 x = take_bit 32 x"

text \<open>
  \<open>QubitDevice.states_to_binary\<close> on a one-dimensional array of basis-state indices:
  \<open>powers_of_two = 1 << np.arange(num_wires, dtype=dtype)\<close>, then each sample is masked
  with every power, compared with zero, and the last axis is reversed, so that the first
  wire is the most significant bit.
\<close>

definition states_to_binary :: "int list \<Rightarrow> nat \<Rightarrow> dtype \<Rightarrow> int list list" where
  "states_to_binary samples num_wires dt =
     (let powers_of_two = map (\<lambda>k. wrap dt (push_bit k 1)) [0..<num_wires];
          states_sampled_base_ten = map (\<lambda>s. map (\<lambda>p. wrap dt (s AND p)) powers_of_two) samples
      in map (\<lambda>row. rev (map (\<lambda>v. if 0 < v then 1 else 0) row)) states_sampled_base_ten)"

text \<open>
  The conversion back, as \<open>estimate_probability\<close>, \<open>marginal_prob\<close> and \<open>sample\<close> write it:
  \<open>powers_of_two = 2 ** np.arange(num_wires)[::-1]\<close> and \<open>indices = samples @ powers_of_two\<close>,
  in 64-bit integers.
\<close>

definition powers_of_two_desc :: "nat \<Rightarrow> int list" where
  "powers_of_two_desc n = rev (map (\<lambda>k. wrap Int64 (2 ^ k)) [0..<n])"

definition binary_to_index :: "int list \<Rightarrow> int" where
  "binary_to_index bits =
     wrap Int64 (sum_list (map2 (*) bits (powers_of_two_desc (length bits))))"

text \<open>\<open>itertools.product((0, 1), repeat=n)\<close>, in the order the iterator yields.\<close>

fun product_bits :: "nat \<Rightarrow> int list list" where
  "product_bits 0 = [[]]"
| "product_bits (Suc n) = concat (map (\<lambda>b. map ((#) b) (product_bits n)) [0, 1])"

text \<open>
  \<open>QubitDevice.generate_basis_states\<close> with its default dtype \<open>np.uint32\<close>.  Between 3 and
  31 wires it converts \<open>np.arange(2 ** num_wires)\<close> with \<open>states_to_binary\<close>; otherwise it
  flattens the product iterator and reshapes to \<open>(-1, num_wires)\<close>, which NumPy refuses for
  \<open>num_wires = 0\<close> (the unknown dimension cannot be inferred from a zero size).
\<close>

definition generate_basis_states :: "nat \<Rightarrow> error + int list list" where
  "generate_basis_states num_wires =
     (if 2 < num_wires \<and> num_wires < 32 then
        (let states_base_ten = map (\<lambda>i. wrap UInt32 (int i)) [0..<2 ^ num_wires]
         in Inr (states_to_binary states_base_ten num_wires UInt32))
      else if num_wires = 0 then Inl ValueError
      else Inr (product_bits num_wires))"

text \<open>The big-endian \<open>n\<close>-bit representation of a basis-state index.\<close>
definition bits_of :: "nat \<Rightarrow> int \<Rightarrow> int list" where
  "bits_of n i = rev (map (\<lambda>k. if bit i k then 1 else 0) [0..<n])"

text \<open>A row of a sample buffer holds computational-basis outcomes, each 0 or 1.\<close>
definition bitlist :: "int list \<Rightarrow> bool" where
  "bitlist bs \<longleftrightarrow> (\<forall>b \<in> set bs. b = 0 \<or> b = 1)"

section \<open>Counts\<close>

text \<open>Python's \<open>str\<close> of an integer, in decimal.\<close>

definition digit_char :: "nat \<Rightarrow> char" where
  "digit_char d = ''0123456789'' ! d"

function str_nat :: "nat \<Rightarrow> string" where
  "str_nat n = (if n < 10 then [digit_char n] else str_nat (n div 10) @ [digit_char (n mod 10)])"
  by pat_completeness auto
termination
  by (relation "measure id") auto

declare str_nat.simps [simp del]

definition str_int :: "int \<Rightarrow> string" where
  "str_int i = (if i < 0 then CHR ''-'' # str_nat (nat (- i)) else str_nat (nat i))"

text \<open>
  \<open>np.unique(xs, return_counts=True)\<close>: the distinct values in ascending order, each paired
  with its number of occurrences.
\<close>

definition np_unique :: "'a::linorder list \<Rightarrow> ('a \<times> nat) list" where
  "np_unique xs = map (\<lambda>v. (v, count_list xs v)) (sort (remdups xs))"

text \<open>
  The last three statements of \<open>_samples_to_counts\<close>.  A Python dictionary is an association
  list in insertion order: assigning to a present key replaces its value in place, assigning
  to a new key appends it.
\<close>

definition count_outcomes :: "'k::linorder list \<Rightarrow> 'k list \<Rightarrow> ('k \<times> nat) list" where
  "count_outcomes outcomes samples =
     (let outcome_dict = fold (\<lambda>k d. AList.update k 0 d) outcomes []
      in fold (\<lambda>(s, c) d. AList.update s c d) (np_unique samples) outcome_dict)"

text \<open>
  The two kinds of argument \<open>_samples_to_counts\<close> receives: for a \<open>CountsMP\<close> without
  observable, its \<open>all_outcomes\<close> flag and the raw samples (one row of bits per shot); for an
  observable, whether its return type is \<open>AllCounts\<close>, its eigenvalues (\<open>None\<close> when they are
  undefined) and one sampled eigenvalue per shot.  The keys of the result are bit strings in
  the first case and eigenvalues in the second.
\<close>

datatype counts_input =
    RawSamples bool "int list list"
  | EigSamples bool "real list option" "real list"

datatype counts_result =
    StrCounts "(string \<times> nat) list"
  | EigCounts "(real \<times> nat) list"

definition join_str :: "int list \<Rightarrow> string" where
  "join_str row = concat (map str_int row)"

definition samples_to_counts :: "counts_input \<Rightarrow> nat \<Rightarrow> error + counts_result" where
  "samples_to_counts inp num_wires =
     (case inp of
        RawSamples all_outcomes samples \<Rightarrow>
          (let samples_str = map join_str samples in
           if all_outcomes then
             (case generate_basis_states num_wires of
                Inl e \<Rightarrow> Inl e
              | Inr outcomes \<Rightarrow>
                  Inr (StrCounts (count_outcomes (map join_str outcomes) samples_str)))
           else Inr (StrCounts (count_outcomes [] samples_str)))
      | EigSamples is_all_counts eigvals samples \<Rightarrow>
          (if is_all_counts then
             (case eigvals of
                None \<Rightarrow> Inl EigvalsUndefinedError
              | Some outcomes \<Rightarrow> Inr (EigCounts (count_outcomes outcomes samples)))
           else Inr (EigCounts (count_outcomes [] samples))))"

text \<open>The character of a bit, for stating what the keys of a counts dictionary look like.\<close>

definition bit_char :: "int \<Rightarrow> char" where
  "bit_char b = (if b = 0 then CHR ''0'' else CHR ''1'')"

section \<open>The device and its probabilities\<close>

text \<open>
  The part of a \<open>QubitDevice\<close> that the statistics read: the wire registry \<open>self.wires\<close>,
  \<open>self.shots\<close> (\<open>None\<close> for an analytic device), the shot vector \<open>self._shot_vector\<close> as pairs
  \<open>(shots, copies)\<close>, and the sample buffer \<open>self._samples\<close> of shape \<open>(shots, num_wires)\<close>, one
  row per shot.  Parameter broadcasting adds a leading batch axis to the buffer; the class
  declares \<open>supports_broadcasting=False\<close> and its \<open>_get_batch_size\<close> always answers \<open>None\<close>, and
  the model keeps to buffers without that axis.

  Modelled from the spec: \<open>state_prob\<close> is the full-system probability vector of the device
  kernel after the last \<open>apply\<close>, of length \<open>2 ^ num_wires\<close>; the kernel itself is outside the
  sources.  Probabilities are real numbers here, not floating-point values.
\<close>

record device =
  self_wires :: "wire list"
  self_shots :: "nat option"
  self_shot_vector :: "(nat \<times> nat) list option"
  self_samples :: "int list list option"
  state_prob :: "real list"

text \<open>\<open>wires or self.wires\<close>: an empty \<open>Wires\<close> object is falsy, like \<open>None\<close>.\<close>

definition or_wires :: "wire list option \<Rightarrow> wire list \<Rightarrow> wire list" where
  "or_wires wires default_wires =
     (case wires of None \<Rightarrow> default_wires | Some ws \<Rightarrow> if ws = [] then default_wires else ws)"

text \<open>\<open>xs[slice(*shot_range)]\<close> for a range of two non-negative integers.\<close>

definition py_slice :: "nat \<times> nat \<Rightarrow> 'a list \<Rightarrow> 'a list" where
  "py_slice r xs = take (snd r - fst r) (drop (fst r) xs)"

text \<open>An integer used as an index into an axis of length \<open>n\<close>: negative values count from the end.\<close>

definition py_index :: "nat \<Rightarrow> int \<Rightarrow> error + nat" where
  "py_index n i =
     (if 0 \<le> i \<and> i < int n then Inr (nat i)
      else if - int n \<le> i \<and> i < 0 then Inr (nat (int n + i))
      else Inl IndexError)"

text \<open>\<open>samples[..., device_wires]\<close>: the listed columns of every row.\<close>

definition select_columns :: "nat list \<Rightarrow> 'a list list \<Rightarrow> error + 'a list list" where
  "select_columns device_wires rows = map_err (\<lambda>row. map_err (list_get row) device_wires) rows"

text \<open>
  \<open>prob[basis_states] = counts / denom\<close> on a vector \<open>prob\<close>, for the pairs that \<open>np.unique\<close>
  returned.
\<close>

fun scatter_counts :: "(int \<times> nat) list \<Rightarrow> real \<Rightarrow> real list \<Rightarrow> error + real list" where
  "scatter_counts [] denom prob = Inr prob"
| "scatter_counts ((state, c) # rest) denom prob =
     (case py_index (length prob) state of
        Inl e \<Rightarrow> Inl e
      | Inr i \<Rightarrow> scatter_counts rest denom (prob[i := real c / denom]))"

text \<open>\<open>QubitDevice._count_unbinned_samples\<close> with \<open>batch_size=None\<close>.\<close>

definition count_unbinned_samples :: "int list \<Rightarrow> nat \<Rightarrow> error + real list" where
  "count_unbinned_samples indices dimension =
     scatter_counts (np_unique indices) (real (length indices)) (replicate dimension 0)"

text \<open>\<open>xs.reshape((r, c))\<close> of a one-dimensional array.\<close>

definition reshape2 :: "'a list \<Rightarrow> nat \<Rightarrow> nat \<Rightarrow> error + 'a list list" where
  "reshape2 xs r c =
     (if length xs = r * c then Inr (map (\<lambda>b. take c (drop (b * c) xs)) [0..<r])
      else Inl ValueError)"

text \<open>
  \<open>QubitDevice._count_binned_samples\<close> with \<open>batch_size=None\<close>: the result has shape
  \<open>(dim, num_bins)\<close>, column \<open>b\<close> holding the relative counts of bin \<open>b\<close>.
\<close>

definition count_binned_samples :: "int list \<Rightarrow> nat \<Rightarrow> nat \<Rightarrow> nat \<Rightarrow> error + real list list" where
  "count_binned_samples indices dimension bin_size num_bins =
     (case reshape2 indices num_bins bin_size of
        Inl e \<Rightarrow> Inl e
      | Inr bins \<Rightarrow>
          (case map_err (\<lambda>idx. scatter_counts (np_unique idx) (real bin_size) (replicate dimension 0)) bins of
             Inl e \<Rightarrow> Inl e
           | Inr columns \<Rightarrow> Inr (map (\<lambda>i. map (\<lambda>col. col ! i) columns) [0..<dimension])))"

text \<open>A probability result: a vector, or a matrix of shape \<open>(dim, num_bins)\<close> when binned.\<close>

datatype prob_array = P1 "real list" | P2 "real list list"

text \<open>\<open>QubitDevice.estimate_probability\<close>.\<close>

definition estimate_probability ::
  "device \<Rightarrow> wire list option \<Rightarrow> (nat \<times> nat) option \<Rightarrow> nat option \<Rightarrow> error + prob_array" where
  "estimate_probability dev wires shot_range bin_size =
     (case Wires (or_wires wires (self_wires dev)) of
        Inl e \<Rightarrow> Inl e
      | Inr wires1 \<Rightarrow>
     (case map_wires (self_wires dev) wires1 of
        Inl e \<Rightarrow> Inl e
      | Inr device_wires \<Rightarrow>
     (let num_wires = length device_wires in
      case self_samples dev of
        None \<Rightarrow> Inl TypeError
      | Some buffer \<Rightarrow>
     (case select_columns device_wires
             (case shot_range of None \<Rightarrow> buffer | Some r \<Rightarrow> py_slice r buffer) of
        Inl e \<Rightarrow> Inl e
      | Inr samples \<Rightarrow>
     (let indices = map binary_to_index samples;
          dimension = 2 ^ num_wires
      in case bin_size of
           Some b \<Rightarrow>
             (if b = 0 then Inl ZeroDivisionError
              else (case count_binned_samples indices dimension b (length samples div b) of
                      Inl e \<Rightarrow> Inl e
                    | Inr prob \<Rightarrow> Inr (P2 prob)))
         | None \<Rightarrow>
             (case count_unbinned_samples indices dimension of
                Inl e \<Rightarrow> Inl e
              | Inr prob \<Rightarrow> Inr (P1 prob)))))))"




text \<open>A two-wire device after four shots, used to instantiate the statements below.\<close>

definition example_device :: device where
  "example_device =
     \<lparr>self_wires = [WInt 0, WInt 1], self_shots = Some 4, self_shot_vector = None,
      self_samples = Some [[1, 0], [1, 1], [1, 1], [0, 1]], state_prob = [0, 1/4, 1/4, 1/2]\<rparr>"

section \<open>Marginal probabilities\<close>

text \<open>
  Modelled from the spec: \<open>Wires.unique_wires\<close> belongs to the \<open>Wires\<close> class, which is not
  part of the sources at hand.  For the device wires and the requested wires it yields the
  wires found in only one of the two, that is, the wires that are not requested.
\<close>

definition unique_wires :: "wire list \<Rightarrow> wire list \<Rightarrow> wire list" where
  "unique_wires a b = filter (\<lambda>w. w \<notin> set b) a @ filter (\<lambda>w. w \<notin> set a) b"

text \<open>
  A tensor of shape \<open>[2] * n\<close> is kept as its flat list of \<open>2 ^ n\<close> entries in row-major
  order, which makes \<open>reshape\<close> the identity on the data.  \<open>sum_axis n a\<close> adds the two
  slices along axis \<open>a\<close>; \<open>reduce_sum\<close> is \<open>np.sum(array, axis=tuple(axes))\<close>, which refuses
  repeated or out-of-range axes, and is computed here one axis at a time from the last axis
  to the first, so that the axes still to be summed keep their numbers.
\<close>

definition sum_axis :: "nat \<Rightarrow> nat \<Rightarrow> real list \<Rightarrow> real list" where
  "sum_axis n a t =
     (let stride = 2 ^ (n - 1 - a)
      in map (\<lambda>j. t ! ((j div stride) * (2 * stride) + j mod stride)
                 + t ! ((j div stride) * (2 * stride) + stride + j mod stride))
           [0..<2 ^ (n - 1)])"

definition reduce_sum :: "nat \<Rightarrow> nat list \<Rightarrow> real list \<Rightarrow> error + real list" where
  "reduce_sum n axes t =
     (if \<not> distinct axes \<or> (\<exists>a \<in> set axes. n \<le> a) then Inl ValueError
      else Inr (snd (fold (\<lambda>a (m, t). (m - 1, sum_axis m a t)) (rev (sort axes)) (n, t))))"

text \<open>\<open>prob[perm]\<close>: reading a vector at a list of integer indices.\<close>

definition gather :: "real list \<Rightarrow> int list \<Rightarrow> error + real list" where
  "gather prob perm =
     map_err (\<lambda>i. case py_index (length prob) i of Inl e \<Rightarrow> Inl e | Inr j \<Rightarrow> Inr (prob ! j)) perm"

text \<open>
  \<open>QubitDevice.marginal_prob\<close>.  The batch size is always \<open>None\<close>.  Reshaping \<open>prob\<close> to
  \<open>[2] * num_wires\<close> fails unless it has \<open>2 ^ num_wires\<close> entries.
\<close>

definition marginal_prob :: "device \<Rightarrow> real list \<Rightarrow> wire list option \<Rightarrow> error + real list" where
  "marginal_prob dev prob wires =
     (case wires of
        None \<Rightarrow> Inr prob
      | Some ws \<Rightarrow>
     (case Wires ws of
        Inl e \<Rightarrow> Inl e
      | Inr wires1 \<Rightarrow>
     (let inactive_wires = unique_wires (self_wires dev) wires1 in
      case map_wires (self_wires dev) wires1 of
        Inl e \<Rightarrow> Inl e
      | Inr device_wires \<Rightarrow>
     (case map_wires (self_wires dev) inactive_wires of
        Inl e \<Rightarrow> Inl e
      | Inr inactive_device_wires \<Rightarrow>
     (if length prob \<noteq> 2 ^ length (self_wires dev) then Inl ValueError
      else
     (case reduce_sum (length (self_wires dev)) inactive_device_wires prob of
        Inl e \<Rightarrow> Inl e
      | Inr marginal \<Rightarrow>
     (let num_wires = length device_wires in
      case generate_basis_states num_wires of
        Inl e \<Rightarrow> Inl e
      | Inr basis_states \<Rightarrow>
     (case select_columns (argsort (argsort device_wires)) basis_states of
        Inl e \<Rightarrow> Inl e
      | Inr permuted_states \<Rightarrow>
     (let perm = map binary_to_index permuted_states
      in gather marginal perm)))))))))"

text \<open>
  Modelled from the spec: \<open>analytic_probability\<close> is abstract in \<open>QubitDevice\<close> and supplied
  by the device; the specification describes it as the device's full-system probability
  vector marginalized over the requested wires, for which the docstring names
  \<open>marginal_prob\<close>.
\<close>

definition analytic_probability :: "device \<Rightarrow> wire list option \<Rightarrow> error + real list" where
  "analytic_probability dev wires = marginal_prob dev (state_prob dev) wires"

text \<open>\<open>QubitDevice.probability\<close>.\<close>

definition probability ::
  "device \<Rightarrow> wire list option \<Rightarrow> (nat \<times> nat) option \<Rightarrow> nat option \<Rightarrow> error + prob_array" where
  "probability dev wires shot_range bin_size =
     (let wires1 = or_wires wires (self_wires dev) in
      if self_shots dev = None then
        (case analytic_probability dev (Some wires1) of
           Inl e \<Rightarrow> Inl e
         | Inr prob \<Rightarrow> Inr (P1 prob))
      else estimate_probability dev (Some wires1) shot_range bin_size)"

section \<open>Observables, samples and expectation values\<close>

text \<open>
  An observable as the device reads it: its \<open>name\<close> (a string, or the list of the factors'
  names for a tensor product), its wires, its eigenvalues (\<open>None\<close> when \<open>eigvals()\<close> raises
  \<open>EigvalsUndefinedError\<close>), \<open>parameters[0]\<close> (the basis state of a projector) and the return
  type that \<open>statistics\<close> copies onto it.  \<open>OtherReturnType\<close> stands for the members of the
  return-type enumeration that \<open>QubitDevice\<close> does not name.
\<close>

datatype return_type =
    Expectation | Variance | Sample | Counts | AllCounts | Probability | State
  | VnEntropy | MutualInfo | Shadow | ShadowExpval | OtherReturnType

datatype obs_name = Name string | Names "string list"

record observable =
  o_name :: obs_name
  o_wires :: "wire list"
  o_eigvals :: "real list option"
  o_parameters :: "int list"
  o_return_type :: "return_type option"

text \<open>
  Modelled from the spec: a tensor product of two observables (the \<open>Tensor\<close> class is not
  part of the sources at hand).  Its eigenvalue vector is ordered by the factor order as
  written, the Kronecker product of the factors' eigenvalues; its wires are the factors'
  wires in that order, each kept once.
\<close>

definition kron :: "real list \<Rightarrow> real list \<Rightarrow> real list" where
  "kron a b = concat (map (\<lambda>x. map (\<lambda>y. x * y) b) a)"

definition all_wires :: "wire list \<Rightarrow> wire list" where
  "all_wires ws = rev (remdups (rev ws))"

definition names_of :: "obs_name \<Rightarrow> string list" where
  "names_of n = (case n of Name s \<Rightarrow> [s] | Names ss \<Rightarrow> ss)"

definition tensor :: "observable \<Rightarrow> observable \<Rightarrow> observable" where
  "tensor A B =
     \<lparr>o_name = Names (names_of (o_name A) @ names_of (o_name B)),
      o_wires = all_wires (o_wires A @ o_wires B),
      o_eigvals = (case o_eigvals A of
                       None \<Rightarrow> None
                     | Some a \<Rightarrow> (case o_eigvals B of None \<Rightarrow> None | Some b \<Rightarrow> Some (kron a b))),
      o_parameters = [],
      o_return_type = None\<rparr>"

text \<open>
  What \<open>sample\<close> is called with: an observable, or a measurement process without observable
  (its wires and its \<open>all_outcomes\<close> flag, which only a \<open>CountsMP\<close> reads).  The name of a
  measurement process is none of the four Pauli-like names.
\<close>

datatype sample_arg = Observable observable | Process "wire list" bool

definition arg_wires :: "sample_arg \<Rightarrow> wire list" where
  "arg_wires a = (case a of Observable ob \<Rightarrow> o_wires ob | Process ws _ \<Rightarrow> ws)"

datatype sample_result =
    EigenSamples "real list"
  | SamplesRaw "int list list"
  | CountsResult counts_result
  | CountsPerBin "counts_result list"
  | BinnedEigen "real list list"
  | BinnedRaw "int list list list"

text \<open>\<open>xs.reshape((a, b, -1))\<close> of a flat array.\<close>

definition reshape3 :: "'a list \<Rightarrow> nat \<Rightarrow> nat \<Rightarrow> error + 'a list list list" where
  "reshape3 xs a b =
     (if a * b = 0 \<or> \<not> (a * b) dvd length xs then Inl ValueError
      else (let c = length xs div (a * b)
            in Inr (map (\<lambda>i. map (\<lambda>j. take c (drop ((i * b + j) * c) xs)) [0..<b]) [0..<a])))"

text \<open>\<open>xs.reshape((-1, c))\<close> of the leading axis: consecutive groups of \<open>c\<close> entries.\<close>

definition reshape_groups :: "'a list \<Rightarrow> nat \<Rightarrow> error + 'a list list" where
  "reshape_groups xs c =
     (if c = 0 \<or> \<not> c dvd length xs then Inl ValueError else reshape2 xs (length xs div c) c)"

text \<open>
  \<open>QubitDevice.sample\<close>.  Counts are requested for a \<open>CountsMP\<close> or for an observable whose
  return type is \<open>Counts\<close> or \<open>AllCounts\<close>.  A missing sample buffer makes every access fail.
\<close>

definition sample ::
  "device \<Rightarrow> sample_arg \<Rightarrow> (nat \<times> nat) option \<Rightarrow> nat option \<Rightarrow> bool \<Rightarrow> error + sample_result" where
  "sample dev arg shot_range bin_size counts =
     (case map_wires (self_wires dev) (arg_wires arg) of
        Inl e \<Rightarrow> Inl e
      | Inr device_wires \<Rightarrow>
     (case self_samples dev of
        None \<Rightarrow> Inl TypeError
      | Some buffer \<Rightarrow>
     (let sub_samples = (case shot_range of None \<Rightarrow> buffer | Some r \<Rightarrow> py_slice r buffer);
          num_wires = (if 0 < length device_wires then length device_wires
                       else length (self_wires dev))
      in case arg of
           Process ws all_outcomes \<Rightarrow>
             (case (if length ws \<noteq> 0 then select_columns device_wires sub_samples
                    else Inr sub_samples) of
                Inl e \<Rightarrow> Inl e
              | Inr samples \<Rightarrow>
                  (case bin_size of
                     None \<Rightarrow>
                       (if counts then
                          (case samples_to_counts (RawSamples all_outcomes samples) num_wires of
                             Inl e \<Rightarrow> Inl e
                           | Inr d \<Rightarrow> Inr (CountsResult d))
                        else Inr (SamplesRaw samples))
                   | Some b \<Rightarrow>
                       (if counts then
                          (if num_wires = 0 then Inl ValueError
                           else (case reshape_groups samples b of
                                   Inl e \<Rightarrow> Inl e
                                 | Inr bins \<Rightarrow>
                                     (case map_err (\<lambda>bin_sample.
                                             samples_to_counts (RawSamples all_outcomes bin_sample) num_wires) bins of
                                        Inl e \<Rightarrow> Inl e
                                      | Inr ds \<Rightarrow> Inr (CountsPerBin ds))))
                        else (case reshape3 (concat (transpose samples)) num_wires b of
                                Inl e \<Rightarrow> Inl e
                              | Inr t \<Rightarrow> Inr (BinnedRaw t)))))
         | Observable ob \<Rightarrow>
             (case (if o_name ob \<in> {Name ''PauliX'', Name ''PauliY'', Name ''PauliZ'', Name ''Hadamard''}
                    then (case list_get device_wires 0 of
                            Inl e \<Rightarrow> Inl e
                          | Inr w0 \<Rightarrow>
                              (case map_err (\<lambda>row. list_get row w0) sub_samples of
                                 Inl e \<Rightarrow> Inl e
                               | Inr column \<Rightarrow> Inr (map (\<lambda>bit. real_of_int (1 - 2 * bit)) column)))
                    else (case select_columns device_wires sub_samples of
                            Inl e \<Rightarrow> Inl e
                          | Inr rows \<Rightarrow>
                              (let indices = map binary_to_index rows in
                               case o_eigvals ob of
                                 None \<Rightarrow> Inl EigvalsUndefinedError
                               | Some eigvals \<Rightarrow> gather eigvals indices))) of
                Inl e \<Rightarrow> Inl e
              | Inr samples \<Rightarrow>
                  (case bin_size of
                     None \<Rightarrow>
                       (if counts then
                          (case samples_to_counts
                                  (EigSamples (o_return_type ob = Some AllCounts) (o_eigvals ob) samples)
                                  num_wires of
                             Inl e \<Rightarrow> Inl e
                           | Inr d \<Rightarrow> Inr (CountsResult d))
                        else Inr (EigenSamples samples))
                   | Some b \<Rightarrow>
                       (if counts then
                          (case reshape_groups samples b of
                             Inl e \<Rightarrow> Inl e
                           | Inr bins \<Rightarrow>
                               (case map_err (\<lambda>bin_sample.
                                       samples_to_counts
                                         (EigSamples (o_return_type ob = Some AllCounts) (o_eigvals ob) bin_sample)
                                         num_wires) bins of
                                  Inl e \<Rightarrow> Inl e
                                | Inr ds \<Rightarrow> Inr (CountsPerBin ds)))
                        else (if b = 0 \<or> \<not> b dvd length samples then Inl ValueError
                              else (case reshape2 samples b (length samples div b) of
                                      Inl e \<Rightarrow> Inl e
                                    | Inr m \<Rightarrow> Inr (BinnedEigen m)))))))))"

text \<open>
  A statistic is a floating-point scalar or a vector of them; the mean of no samples is
  NaN.  Finite values are real numbers in this model.
\<close>

datatype number = Num real | NaN

datatype stat_value = Scalar number | Vector "number list"

definition np_mean :: "real list \<Rightarrow> number" where
  "np_mean xs = (if xs = [] then NaN else Num (sum_list xs / real (length xs)))"

definition np_squeeze :: "number list \<Rightarrow> stat_value" where
  "np_squeeze xs = (case xs of [x] \<Rightarrow> Scalar x | _ \<Rightarrow> Vector xs)"

text \<open>\<open>np.dot\<close> of two vectors.\<close>

definition dot :: "real list \<Rightarrow> real list \<Rightarrow> error + real" where
  "dot xs ys = (if length xs = length ys then Inr (sum_list (map2 (*) xs ys)) else Inl ValueError)"

text \<open>
  \<open>int("".join(str(i) for i in parameters[0]), 2)\<close> for the basis state of a projector, a
  list of bits.
\<close>

definition projector_index :: "int list \<Rightarrow> error + nat" where
  "projector_index bits =
     (if bits \<noteq> [] \<and> bitlist bits then Inr (nat (foldl (\<lambda>acc b. 2 * acc + b) 0 bits))
      else Inl ValueError)"

text \<open>\<open>QubitDevice.expval\<close>.\<close>

definition expval ::
  "device \<Rightarrow> observable \<Rightarrow> (nat \<times> nat) option \<Rightarrow> nat option \<Rightarrow> error + stat_value" where
  "expval dev ob shot_range bin_size =
     (if o_name ob = Name ''Projector'' then
        (case projector_index (o_parameters ob) of
           Inl e \<Rightarrow> Inl e
         | Inr idx \<Rightarrow>
             (case probability dev (Some (o_wires ob)) shot_range bin_size of
                Inl e \<Rightarrow> Inl e
              | Inr (P1 probs) \<Rightarrow>
                  (case list_get probs idx of Inl e \<Rightarrow> Inl e | Inr p \<Rightarrow> Inr (Scalar (Num p)))
              | Inr (P2 probs) \<Rightarrow>
                  (case list_get probs idx of Inl e \<Rightarrow> Inl e | Inr row \<Rightarrow> Inr (Vector (map Num row)))))
      else if self_shots dev = None then
        (case o_eigvals ob of
           None \<Rightarrow> Inl EigvalsUndefinedError
         | Some eigvals \<Rightarrow>
             (case permute_wires (self_wires dev) (o_wires ob) of
                Inl e \<Rightarrow> Inl e
              | Inr permuted_wires \<Rightarrow>
                  (case probability dev (Some permuted_wires) None None of
                     Inl e \<Rightarrow> Inl e
                   | Inr (P1 prob) \<Rightarrow>
                       (case dot prob eigvals of Inl e \<Rightarrow> Inl e | Inr v \<Rightarrow> Inr (Scalar (Num v)))
                   | Inr (P2 prob) \<Rightarrow> Inl ValueError)))
      else
        (case sample dev (Observable ob) shot_range bin_size False of
           Inl e \<Rightarrow> Inl e
         | Inr (EigenSamples samples) \<Rightarrow> Inr (Scalar (np_mean samples))
         | Inr (BinnedEigen m) \<Rightarrow>
             Inr (np_squeeze (map (\<lambda>j. np_mean (map (\<lambda>row. row ! j) m))
                                 [0..<(case m of [] \<Rightarrow> 0 | row # _ \<Rightarrow> length row)]))
         | Inr _ \<Rightarrow> Inl TypeError))"

text \<open>
  Notions for stating what \<open>marginal_prob\<close> returns: the marginal in device order (the
  non-requested wires summed out), and the index into it that the basis-state permutation
  assigns to a result index \<open>x\<close>: bit \<open>c\<close> of that index is bit \<open>rank ! c\<close> of \<open>x\<close>.
\<close>

definition device_marginal :: "device \<Rightarrow> real list \<Rightarrow> wire list \<Rightarrow> real list" where
  "device_marginal dev prob ws =
     (case reduce_sum (length (self_wires dev))
             (map (device_index (self_wires dev)) (filter (\<lambda>w. w \<notin> set ws) (self_wires dev))) prob of
        Inl _ \<Rightarrow> []
      | Inr m \<Rightarrow> m)"

definition reorder_index :: "nat list \<Rightarrow> nat \<Rightarrow> nat" where
  "reorder_index rank x =
     nat (binary_to_index (map (\<lambda>c. bits_of (length rank) (int x) ! c) rank))"

text \<open>An analytic two-wire device and two single-qubit observables, for instances.\<close>

definition analytic_device :: device where
  "analytic_device =
     \<lparr>self_wires = [WInt 0, WInt 1], self_shots = None, self_shot_vector = None,
      self_samples = None, state_prob = [1/10, 2/10, 3/10, 4/10]\<rparr>"

definition hermitian_on_0 :: observable where
  "hermitian_on_0 =
     \<lparr>o_name = Name ''Hermitian'', o_wires = [WInt 0], o_eigvals = Some [2, 3],
      o_parameters = [], o_return_type = None\<rparr>"

definition pauli_z_on_1 :: observable where
  "pauli_z_on_1 =
     \<lparr>o_name = Name ''PauliZ'', o_wires = [WInt 1], o_eigvals = Some [1, - 1],
      o_parameters = [], o_return_type = None\<rparr>"


text \<open>
  The device of the documentation's example, with wires \<open>[0, 1, 2]\<close>; its state is the basis
  state in which wire 0 carries 1 and the other wires carry 0.
\<close>

definition three_wire_device :: device where
  "three_wire_device =
     \<lparr>self_wires = [WInt 0, WInt 1, WInt 2], self_shots = None, self_shot_vector = None,
      self_samples = None, state_prob = [0, 0, 0, 0, 1, 0, 0, 0]\<rparr>"

section \<open>Execution and the dispatch of measurements\<close>

text \<open>
  A measurement as the dispatchers read it.  \<open>m_class\<close> is the first of the ten classes
  tested by name in \<open>_statistics_new\<close> that the object is an instance of (\<open>NoBuiltinMP\<close> when it
  is an instance of none of them); the three flags are the answers of
  \<open>isinstance(m, MeasurementTransform)\<close>, \<open>isinstance(m, SampleMeasurement)\<close> and
  \<open>isinstance(m, StateMeasurement)\<close>.  Both dispatchers work on \<open>obs\<close>, which is \<open>m.obs\<close> with the
  return type of \<open>m\<close> copied onto it, or \<open>m\<close> itself, so that \<open>obs.return_type\<close> is always the
  return type of \<open>m\<close>.  A measurement carries its wires and, for a classical shadow, its seed.
\<close>

datatype mp_class =
    ExpectationMP | VarianceMP | SampleMP | CountsMP | ProbabilityMP | StateMP
  | VnEntropyMP | MutualInfoMP | ClassicalShadowMP | ShadowExpvalMP | NoBuiltinMP

record measurement =
  m_class :: mp_class
  is_transform :: bool
  is_sample_measurement :: bool
  is_state_measurement :: bool
  m_return_type :: "return_type option"
  m_wires :: "wire list"
  m_seed :: "int option"

text \<open>An operation is a gate name with the wires it acts on; a circuit is a quantum script.\<close>

datatype operation = Operation string "wire list"

record circuit =
  operations :: "operation list"
  diagonalizing_gates :: "operation list"
  measurements :: "measurement list"

text \<open>
  The methods a dispatcher calls to compute one result.  Devices override them, and the
  measurement classes supply \<open>process\<close>, \<open>process_state\<close> and \<open>process_samples\<close>, so the model
  takes them as parameters.  \<open>CallSample counts\<close> is \<open>self.sample(..., counts=counts)\<close>;
  \<open>CallMethod\<close> is the device attribute named \<open>m.method_name\<close>.
\<close>

datatype routine =
    CallExpval | CallVar | CallSample bool | CallProbability | CallAccessState
  | CallVnEntropy | CallMutualInfo | CallClassicalShadow | CallShadowExpval
  | CallMethod | CallProcess | CallProcessState | CallProcessSamples

text \<open>
  What an execution does to the device, in order: gates applied, samples generated, the
  device reset, a routine called, a warning issued.
\<close>

datatype event = ApplyGates | GenerateSamples | Reset | Called routine | Warned

text \<open>
  The device kernel and the measurement routines, as parameters of the model:
  \<open>check_validity\<close> (its error, if it raises), \<open>apply(operations, rotations)\<close>, which
  replaces the internal state of the device, \<open>generate_samples\<close> (it draws random samples),
  the initial state that \<open>reset\<close> restores, the routines above, which read the device and
  return a result of an arbitrary type \<open>'r\<close>, and whether the device has a truthy attribute
  named \<open>m.method_name\<close>.
\<close>

record 'r kernel =
  k_check_validity :: "circuit \<Rightarrow> device \<Rightarrow> error option"
  k_apply :: "operation list \<Rightarrow> operation list \<Rightarrow> device \<Rightarrow> error + real list"
  k_generate_samples :: "device \<Rightarrow> error + int list list"
  k_reset :: "device \<Rightarrow> real list"
  k_run :: "routine \<Rightarrow> measurement \<Rightarrow> circuit option \<Rightarrow> (nat \<times> nat) option \<Rightarrow> nat option
              \<Rightarrow> device \<Rightarrow> error + 'r"
  k_has_method :: "measurement \<Rightarrow> bool"

text \<open>
  A modelled method returns its value or its exception, together with the events it caused
  up to that point.  \<open>call\<close> runs one routine.
\<close>

definition call ::
  "'r kernel \<Rightarrow> routine \<Rightarrow> measurement \<Rightarrow> circuit option \<Rightarrow> (nat \<times> nat) option \<Rightarrow> nat option
     \<Rightarrow> device \<Rightarrow> (error + 'r) \<times> event list" where
  "call k rt m c shot_range bin_size dev = (k_run k rt m c shot_range bin_size dev, [Called rt])"















text \<open>
  A kernel in which every call succeeds with the result \<open>0\<close>, a device with a shot vector,
  and measurements and circuits for instances.
\<close>

definition ideal_kernel :: "nat kernel" where
  "ideal_kernel =
     \<lparr>k_check_validity = (\<lambda>c dev. None),
      k_apply = (\<lambda>ops rotations dev. Inr (state_prob dev)),
      k_generate_samples = (\<lambda>dev. Inr (replicate (case self_shots dev of None \<Rightarrow> 0 | Some n \<Rightarrow> n)
                                             (replicate (length (self_wires dev)) 0))),
      k_reset = (\<lambda>dev. 1 # replicate (2 ^ length (self_wires dev) - 1) 0),
      k_run = (\<lambda>rt m c shot_range bin_size dev. Inr 0),
      k_has_method = (\<lambda>m. False)\<rparr>"



definition shadow_measurement :: measurement where
  "shadow_measurement =
     \<lparr>m_class = ClassicalShadowMP, is_transform = True, is_sample_measurement = False,
      is_state_measurement = False, m_return_type = Some Shadow, m_wires = [WInt 0, WInt 1],
      m_seed = Some 42\<rparr>"

definition expectation_measurement :: measurement where
  "expectation_measurement =
     \<lparr>m_class = ExpectationMP, is_transform = False, is_sample_measurement = True,
      is_state_measurement = True, m_return_type = Some Expectation, m_wires = [WInt 0],
      m_seed = None\<rparr>"


definition shadow_with_expval :: circuit where
  "shadow_with_expval =
     \<lparr>operations = [Operation ''Hadamard'' [WInt 0]], diagonalizing_gates = [],
      measurements = [shadow_measurement, expectation_measurement]\<rparr>"


section \<open>Classical shadows\<close>

text \<open>
  Modelled from the spec: \<open>set_shots(self, shots=1)\<close> belongs to \<open>pennylane.interfaces\<close>, which is
  not part of the sources at hand.  It gives the device a budget of one shot for the
  duration of the block.
\<close>

definition set_shots :: "device \<Rightarrow> nat \<Rightarrow> device" where
  "set_shots dev shots = dev\<lparr>self_shots := Some shots, self_shot_vector := None\<rparr>"

text \<open>
  \<open>np.random.RandomState(seed)\<close>: an integer seed has to lie in \<open>[0, 2 ** 32)\<close>; without a
  seed the generator is seeded from the entropy of the operating system, which is the
  parameter \<open>entropy\<close> of the model.  The result stands for the seeded generator.
\<close>

definition RandomState :: "int option \<Rightarrow> nat \<Rightarrow> error + nat" where
  "RandomState seed entropy =
     (case seed of
        None \<Rightarrow> Inr entropy
      | Some s \<Rightarrow> if 0 \<le> s \<and> s < 2 ^ 32 then Inr (nat s) else Inl ValueError)"

text \<open>\<open>QubitDevice.reset\<close>: the sample buffer is dropped and the kernel restores its state.\<close>

definition reset :: "'r kernel \<Rightarrow> device \<Rightarrow> device" where
  "reset k dev = dev\<lparr>self_samples := None, state_prob := k_reset k dev\<rparr>"

text \<open>
  The snapshots of \<open>QubitDevice.classical_shadow\<close>: the body of its loop over \<open>t\<close>, for the
  values of \<open>t\<close> still to come.  \<open>gates i wire\<close> stands for
  \<open>obs_list[i].compute_diagonalizing_gates(wires=wire)\<close>, the diagonalizing gates of the Pauli
  operator with label \<open>i\<close>; the operator classes are outside the sources, and so the gates
  are a parameter.  The result is the rows \<open>outcomes[t]\<close>.
\<close>

fun shadow_snapshots ::
  "'r kernel \<Rightarrow> (nat \<Rightarrow> wire \<Rightarrow> operation list) \<Rightarrow> circuit \<Rightarrow> wire list \<Rightarrow> nat list \<Rightarrow> int list list
     \<Rightarrow> nat list \<Rightarrow> device \<Rightarrow> (error + int list list) \<times> event list" where
  "shadow_snapshots k gates c wires mapped_wires recipes [] dev = (Inr [], [])"
| "shadow_snapshots k gates c wires mapped_wires recipes (t # ts) dev =
     (case list_get recipes t of
        Inl e \<Rightarrow> (Inl e, [])
      | Inr recipe \<Rightarrow>
     (case map_err (\<lambda>p. case list_get recipe (fst p) of
                           Inl e \<Rightarrow> Inl e
                         | Inr label \<Rightarrow>
                             (case py_index 3 label of
                                Inl e \<Rightarrow> Inl e
                              | Inr i \<Rightarrow> Inr (gates i (snd p))))
             (zip [0..<length wires] wires) of
        Inl e \<Rightarrow> (Inl e, [])
      | Inr rotations \<Rightarrow>
     (let dev1 = reset k dev in
      case k_apply k (operations c) (diagonalizing_gates c @ concat rotations) dev1 of
        Inl e \<Rightarrow> (Inl e, [Reset, ApplyGates])
      | Inr state \<Rightarrow>
     (let dev2 = dev1\<lparr>state_prob := state\<rparr> in
      case k_generate_samples k dev2 of
        Inl e \<Rightarrow> (Inl e, [Reset, ApplyGates, GenerateSamples])
      | Inr samples \<Rightarrow>
     (case (case list_get samples 0 of
              Inl e \<Rightarrow> Inl e
            | Inr row \<Rightarrow> map_err (list_get row) mapped_wires) of
        Inl e \<Rightarrow> (Inl e, [Reset, ApplyGates, GenerateSamples])
      | Inr outcome \<Rightarrow>
     (case shadow_snapshots k gates c wires mapped_wires recipes ts dev2 of
        (Inl e, events) \<Rightarrow> (Inl e, [Reset, ApplyGates, GenerateSamples] @ events)
      | (Inr outcomes, events) \<Rightarrow>
          (Inr (outcome # outcomes), [Reset, ApplyGates, GenerateSamples] @ events)))))))"

text \<open>
  \<open>QubitDevice.classical_shadow\<close>.  \<open>randint seed rows cols\<close> stands for
  \<open>RandomState(seed).randint(0, 3, size=(rows, cols))\<close> of NumPy.  Without shots the size is
  not a tuple of integers.  \<open>np.stack\<close> wants \<open>outcomes\<close> and \<open>recipes\<close> of one shape; the result
  is the pair of the stacked arrays, the bits and the recipes, cast to \<open>int8\<close>.
\<close>

definition classical_shadow ::
  "'r kernel \<Rightarrow> (nat \<Rightarrow> nat \<Rightarrow> nat \<Rightarrow> int list list) \<Rightarrow> (nat \<Rightarrow> wire \<Rightarrow> operation list) \<Rightarrow> nat
     \<Rightarrow> device \<Rightarrow> measurement \<Rightarrow> circuit option
     \<Rightarrow> (error + int list list \<times> int list list) \<times> event list" where
  "classical_shadow k randint gates entropy dev obs circuit =
     (case circuit of
        None \<Rightarrow> (Inl ValueError, [])
      | Some c \<Rightarrow>
     (let wires = m_wires obs;
          n_snapshots = self_shots dev;
          seed = m_seed obs;
          dev1 = set_shots dev 1;
          n_qubits = length wires
      in case map_wires (self_wires dev1) wires of
           Inl e \<Rightarrow> (Inl e, [])
         | Inr mapped_wires \<Rightarrow>
     (case RandomState seed entropy of
        Inl e \<Rightarrow> (Inl e, [])
      | Inr rng \<Rightarrow>
     (case n_snapshots of
        None \<Rightarrow> (Inl TypeError, [])
      | Some snapshots \<Rightarrow>
     (let recipes = randint rng snapshots n_qubits in
      case shadow_snapshots k gates c wires mapped_wires recipes [0..<snapshots] dev1 of
        (Inl e, events) \<Rightarrow> (Inl e, events)
      | (Inr outcomes, events) \<Rightarrow>
          (if map length recipes = map length outcomes then
             (Inr (map (map (wrap Int8)) outcomes, map (map (wrap Int8)) recipes), events)
           else (Inl ValueError, events)))))))"

text \<open>
  Instances: a generator whose draws are a fixed function of the seed and the position, the
  diagonalizing gates of the three Pauli operators, and a circuit with a single shadow
  measurement.
\<close>

definition example_randint :: "nat \<Rightarrow> nat \<Rightarrow> nat \<Rightarrow> int list list" where
  "example_randint seed rows cols =
     map (\<lambda>t. map (\<lambda>j. int ((seed + 2 * t + j) mod 3)) [0..<cols]) [0..<rows]"

definition pauli_gates :: "nat \<Rightarrow> wire \<Rightarrow> operation list" where
  "pauli_gates i wire =
     (if i = 0 then [Operation ''Hadamard'' [wire]]
      else if i = 1 then [Operation ''PauliZ'' [wire], Operation ''S'' [wire],
                          Operation ''Hadamard'' [wire]]
      else [])"

definition shadow_only :: circuit where
  "shadow_only =
     \<lparr>operations = [Operation ''Hadamard'' [WInt 0]], diagonalizing_gates = [],
      measurements = [shadow_measurement]\<rparr>"

definition labelled_device :: device where
  "labelled_device =
     \<lparr>self_wires = [WStr ''aux'', WInt 0, WInt 1], self_shots = Some 4, self_shot_vector = None,
      self_samples = None, state_prob = [0, 0, 0, 0, 0, 0, 0, 1]\<rparr>"

section \<open>Facts about the helpers\<close>

lemma index_of_None_iff: "index_of xs x = None \<longleftrightarrow> x \<notin> set xs"
  by (induction xs) auto

lemma index_of_SomeD: "index_of xs x = Some i \<Longrightarrow> i < length xs \<and> xs ! i = x"
  by (induction xs arbitrary: i) (auto split: if_splits)

lemma index_of_nth: "distinct xs \<Longrightarrow> i < length xs \<Longrightarrow> index_of xs (xs ! i) = Some i"
proof (induction xs arbitrary: i)
  case Nil
  then show ?case by simp
next
  case (Cons y ys)
  show ?case
  proof (cases i)
    case 0
    then show ?thesis by simp
  next
    case (Suc j)
    with Cons.prems have "ys ! j \<noteq> y" "index_of ys (ys ! j) = Some j"
      using Cons.IH [of j] by auto
    with Suc show ?thesis by simp
  qed
qed

lemma device_index_less: "w \<in> set dw \<Longrightarrow> device_index dw w < length dw"
  by (cases "index_of dw w") (auto simp: device_index_def index_of_None_iff dest: index_of_SomeD)

lemma device_index_nth: "w \<in> set dw \<Longrightarrow> dw ! device_index dw w = w"
  by (cases "index_of dw w") (auto simp: device_index_def index_of_None_iff dest: index_of_SomeD)

lemma device_index_inj: "inj_on (device_index dw) (set dw)"
  by (rule inj_onI) (metis device_index_nth)

lemma map_err_Inr:
  "(\<And>x. x \<in> set xs \<Longrightarrow> f x = Inr (g x)) \<Longrightarrow> map_err f xs = Inr (map g xs)"
  by (induction xs) auto

lemma map_wires_ok:
  "set ws \<subseteq> set dw \<Longrightarrow> map_wires dw ws = Inr (map (device_index dw) ws)"
  unfolding map_wires_def
  by (rule map_err_Inr) (auto simp: device_index_def index_of_None_iff split: option.splits)

lemma length_argsort [simp]: "length (argsort ks) = length ks"
  by (simp add: argsort_def)

lemma map_snd_zip_upt: "map snd (zip ks [0..<length ks]) = [0..<length ks]"
  by (rule map_snd_zip) simp

lemma set_argsort [simp]: "set (argsort ks) = {0..<length ks}"
proof -
  have "set (argsort ks) = snd ` set (zip ks [0..<length ks])"
    by (simp add: argsort_def)
  also have "\<dots> = set (map snd (zip ks [0..<length ks]))"
    by (simp only: set_map)
  also have "\<dots> = {0..<length ks}"
    by (simp only: map_snd_zip_upt set_upt)
  finally show ?thesis .
qed

lemma distinct_argsort [simp]: "distinct (argsort ks)"
proof -
  let ?zs = "zip ks [0..<length ks]"
  have "distinct (map snd ?zs)"
    by (simp only: map_snd_zip_upt distinct_upt)
  then have "distinct ?zs \<and> inj_on snd (set ?zs)"
    by (simp only: distinct_map)
  then show ?thesis
    by (simp add: argsort_def distinct_map)
qed

section \<open>The wire permutation of an observable\<close>

lemma map_snd_insort_key_fst:
  "\<forall>p \<in> set zs. fst p = f (snd p) \<Longrightarrow>
   map snd (insort_key fst (f x, x) zs) = insort_key f x (map snd zs)"
  by (induction zs) auto

lemma sort_key_zip_keys:
  "map snd (sort_key fst (zip (map f xs) xs)) = sort_key f xs
   \<and> (\<forall>p \<in> set (sort_key fst (zip (map f xs) xs)). fst p = f (snd p))"
proof (induction xs)
  case Nil
  show ?case by simp
next
  case (Cons x xs)
  then show ?case
    by (simp add: map_snd_insort_key_fst set_insort_key)
qed

lemma map_device_index_self:
  assumes "distinct dw"
  shows "map (device_index dw) dw = [0..<length dw]"
proof (rule nth_equalityI)
  show "length (map (device_index dw) dw) = length [0..<length dw]" by simp
next
  fix i assume "i < length (map (device_index dw) dw)"
  then have i: "i < length dw" by simp
  with assms have "index_of dw (dw ! i) = Some i" by (rule index_of_nth)
  with i show "map (device_index dw) dw ! i = [0..<length dw] ! i"
    by (simp add: device_index_def)
qed

lemma order_wires_ok:
  assumes "distinct dw" and "distinct ws" and "set ws \<subseteq> set dw"
  shows "order_wires dw ws = Inr (filter (\<lambda>w. w \<in> set ws) dw)"
proof -
  let ?f = "device_index dw"
  let ?a = "sort_key ?f ws"
  let ?b = "filter (\<lambda>w. w \<in> set ws) dw"
  have code: "order_wires dw ws = Inr ?a"
    using assms(3) by (simp add: order_wires_def map_wires_ok sort_key_zip_keys)
  have sd: "sorted (map ?f dw)" "distinct (map ?f dw)"
    using assms(1) by (simp_all add: map_device_index_self)
  have "inj_on ?f (set ?a \<union> set ?b)"
    using assms(3) by (intro inj_on_subset [OF device_index_inj]) auto
  moreover have "sorted (map ?f ?a)" by simp
  moreover have "distinct (map ?f ?a)"
    using assms(2,3) by (simp add: distinct_map inj_on_subset [OF device_index_inj])
  moreover have "sorted (map ?f ?b)" using sd(1) by (rule sorted_filter)
  moreover have "distinct (map ?f ?b)" using sd(2) by (rule distinct_map_filter)
  moreover have "set ?a = set ?b" using assms(3) by auto
  ultimately have "?a = ?b" by (rule map_sorted_distinct_set_unique)
  with code show ?thesis by simp
qed

lemma gather_ok:
  "\<forall>i \<in> set is. i < length xs \<Longrightarrow> map_err (list_get xs) is = Inr (map (\<lambda>i. xs ! i) is)"
  by (rule map_err_Inr) (simp add: list_get_def)

lemma permute_wires_spec:
  assumes "distinct dev_wires" and "distinct obs_wires" and "set obs_wires \<subseteq> set dev_wires"
  shows "permute_wires dev_wires obs_wires = Inr (permute_for_observable_spec dev_wires obs_wires)"
proof -
  let ?ordered = "filter (\<lambda>w. w \<in> set obs_wires) dev_wires"
  let ?mapped = "map (device_index dev_wires) obs_wires"
  let ?perm = "argsort ?mapped"
  have "set ?ordered = set obs_wires" using assms(3) by auto
  moreover have dord: "distinct ?ordered" using assms(1) by simp
  ultimately have len: "length ?ordered = length obs_wires"
    using assms(2) by (metis distinct_card)
  have inrange: "\<forall>i \<in> set ?perm. i < length ?ordered"
    by (simp add: len)
  have "inj_on (nth ?ordered) (set ?perm)"
    using dord inrange by (rule inj_on_nth)
  then have "distinct (map (\<lambda>i. ?ordered ! i) ?perm)"
    by (simp add: distinct_map)
  then show ?thesis
    using assms inrange
    by (simp add: permute_wires_def order_wires_ok map_wires_ok gather_ok Wires_def
        permute_for_observable_spec_def Let_def)
qed

text \<open>
  Claim C1.  For an observable whose wires are duplicate-free and all belong to the device
  wire registry, \<open>_permute_wires\<close> raises nothing and returns exactly the list of the
  four-step algorithm: the observable's wires in device order, re-indexed by the argsort of
  the observable's device indices.
\<close>

theorem permute_wires_four_steps:
  assumes "distinct dev_wires" and "distinct obs_wires" and "set obs_wires \<subseteq> set dev_wires"
  shows "permute_wires dev_wires obs_wires = Inr (permute_for_observable_spec dev_wires obs_wires)"
  using assms by (rule permute_wires_spec)

theorem permute_wires_four_steps_witness:
  "distinct [WInt 0, WInt 1, WInt 2] \<and> distinct [WInt 2, WInt 0, WInt 1]
   \<and> set [WInt 2, WInt 0, WInt 1] \<subseteq> set [WInt 0, WInt 1, WInt 2]
   \<and> permute_wires [WInt 0, WInt 1, WInt 2] [WInt 2, WInt 0, WInt 1]
       = Inr (permute_for_observable_spec [WInt 0, WInt 1, WInt 2] [WInt 2, WInt 0, WInt 1])
   \<and> permute_for_observable_spec [WInt 0, WInt 1, WInt 2] [WInt 2, WInt 0, WInt 1]
       = [WInt 1, WInt 2, WInt 0]"
proof -
  have h1: "distinct [WInt 0, WInt 1, WInt 2]" by simp
  have h2: "distinct [WInt 2, WInt 0, WInt 1]" by simp
  have h3: "set [WInt 2, WInt 0, WInt 1] \<subseteq> set [WInt 0, WInt 1, WInt 2]" by auto
  have v: "permute_for_observable_spec [WInt 0, WInt 1, WInt 2] [WInt 2, WInt 0, WInt 1]
       = [WInt 1, WInt 2, WInt 0]"
    by code_simp
  show ?thesis
    using h1 h2 h3 v permute_wires_four_steps [OF h1 h2 h3] by simp
qed

section \<open>Facts about binary conversion\<close>

lemma and_exp_int: "(s::int) AND 2 ^ k = (if bit s k then 2 ^ k else 0)"
  by (rule bit_eqI) (auto simp: bit_and_iff bit_exp_iff)

lemma wrap_Int64_id: "- (2 ^ 63) \<le> x \<Longrightarrow> x < 2 ^ 63 \<Longrightarrow> wrap Int64 x = x"
  unfolding wrap.simps by (rule signed_take_bit_int_eq_self)

lemma wrap_UInt32_id: "0 \<le> x \<Longrightarrow> x < 2 ^ 32 \<Longrightarrow> wrap UInt32 x = x"
  unfolding wrap.simps by (rule take_bit_int_eq_self)

lemma pow_lt_63: "k < 63 \<Longrightarrow> (2::int) ^ k < 2 ^ 63"
  by (rule power_strict_increasing) simp_all

lemma pow_lt_32: "k < 32 \<Longrightarrow> (2::int) ^ k < 2 ^ 32"
  by (rule power_strict_increasing) simp_all

lemma wrap_Int64_pow: "k < 63 \<Longrightarrow> wrap Int64 (2 ^ k) = 2 ^ k"
proof (rule wrap_Int64_id)
  show "- (2 ^ 63) \<le> (2::int) ^ k"
    by (rule order_trans [of _ 0]) simp_all
qed (rule pow_lt_63)

lemma wrap_UInt32_pow: "k < 32 \<Longrightarrow> wrap UInt32 (2 ^ k) = 2 ^ k"
  by (rule wrap_UInt32_id) (simp_all only: pow_lt_32 zero_le_power zero_le_numeral)

lemma mask_test_Int64:
  assumes "k < 63"
  shows "0 < wrap Int64 (s AND wrap Int64 (2 ^ k)) \<longleftrightarrow> bit s k"
proof (cases "bit s k")
  case True
  then show ?thesis
    by (simp only: wrap_Int64_pow [OF assms] and_exp_int if_True) simp
next
  case False
  then have "s AND 2 ^ k = 0" by (simp add: and_exp_int)
  with False show ?thesis
    by (simp only: wrap_Int64_pow [OF assms]) simp
qed

lemma mask_test_UInt32:
  assumes "k < 32"
  shows "0 < wrap UInt32 (s AND wrap UInt32 (2 ^ k)) \<longleftrightarrow> bit s k"
proof (cases "bit s k")
  case True
  then show ?thesis
    by (simp only: wrap_UInt32_pow [OF assms] and_exp_int if_True) simp
next
  case False
  then have "s AND 2 ^ k = 0" by (simp add: and_exp_int)
  with False show ?thesis
    by (simp only: wrap_UInt32_pow [OF assms]) simp
qed

lemma states_to_binary_Int64:
  "n \<le> 63 \<Longrightarrow> states_to_binary xs n Int64 = map (bits_of n) xs"
  by (simp add: states_to_binary_def bits_of_def mask_test_Int64 del: wrap.simps)

lemma states_to_binary_UInt32:
  "n \<le> 32 \<Longrightarrow> states_to_binary xs n UInt32 = map (bits_of n) xs"
  by (simp add: states_to_binary_def bits_of_def mask_test_UInt32 del: wrap.simps)

lemma powers_of_two_desc_Suc:
  "powers_of_two_desc (Suc n) = wrap Int64 (2 ^ n) # powers_of_two_desc n"
  by (simp add: powers_of_two_desc_def del: wrap.simps)

lemma dot_powers_horner:
  "length bs \<le> 63 \<Longrightarrow>
   sum_list (map2 (*) bs (powers_of_two_desc (length bs))) = horner_sum id 2 (rev bs)"
proof (induction bs)
  case Nil
  show ?case by (simp add: powers_of_two_desc_def)
next
  case (Cons b bs)
  then have "length bs < 63" by simp
  then have "wrap Int64 (2 ^ length bs) = 2 ^ length bs" by (rule wrap_Int64_pow)
  with Cons show ?case
    by (simp add: powers_of_two_desc_Suc horner_sum_append del: wrap.simps)
qed

lemma horner_bits_bounds:
  "bitlist bs \<Longrightarrow> 0 \<le> horner_sum id 2 (rev bs) \<and> horner_sum id (2::int) (rev bs) < 2 ^ length bs"
proof (induction bs)
  case Nil
  show ?case by simp
next
  case (Cons b bs)
  then have "b = 0 \<or> b = 1" and "bitlist bs" by (simp_all add: bitlist_def)
  with Cons.IH show ?case
    by (auto simp: horner_sum_append)
qed

lemma binary_to_index_horner:
  assumes "bitlist bs" and "length bs \<le> 63"
  shows "binary_to_index bs = horner_sum id 2 (rev bs)"
proof -
  let ?h = "horner_sum id (2::int) (rev bs)"
  from horner_bits_bounds [OF assms(1)] have "0 \<le> ?h" "?h < 2 ^ length bs" by simp_all
  moreover have "(2::int) ^ length bs \<le> 2 ^ 63"
    using assms(2) by (intro power_increasing) simp_all
  ultimately have "- (2 ^ 63) \<le> ?h" "?h < 2 ^ 63" by linarith+
  then have "wrap Int64 ?h = ?h" by (rule wrap_Int64_id)
  then show ?thesis
    by (simp only: binary_to_index_def dot_powers_horner [OF assms(2)])
qed

lemma bitlist_bits_of: "bitlist (bits_of n i)"
  by (auto simp: bitlist_def bits_of_def)

lemma length_bits_of [simp]: "length (bits_of n i) = n"
  by (simp add: bits_of_def)

lemma horner_bits_of: "horner_sum id 2 (rev (bits_of n i)) = take_bit n i"
proof -
  have "rev (bits_of n i) = map of_bool (map (bit i) [0..<n])"
    by (simp add: bits_of_def)
  then have "horner_sum id 2 (rev (bits_of n i)) = horner_sum of_bool (2::int) (map (bit i) [0..<n])"
    by (simp only: horner_sum_eq_sum_funpow) simp
  then show ?thesis
    by (simp only: horner_sum_bit_eq_take_bit)
qed

lemma binary_to_index_bits_of:
  assumes "n \<le> 63" and "0 \<le> i" and "i < 2 ^ n"
  shows "binary_to_index (bits_of n i) = i"
  using assms by (simp add: binary_to_index_horner bitlist_bits_of horner_bits_of take_bit_int_eq_self)

lemma bits_of_horner:
  assumes "bitlist bs"
  shows "bits_of (length bs) (horner_sum id 2 (rev bs)) = bs"
proof -
  let ?n = "length bs"
  have v: "rev bs ! k = 0 \<or> rev bs ! k = 1" if "k < ?n" for k
  proof -
    from that have "rev bs ! k \<in> set (rev bs)" by (intro nth_mem) simp
    with assms show ?thesis by (simp add: bitlist_def)
  qed
  have e: "rev bs = map of_bool (map (\<lambda>b. b = 1) (rev bs))"
  proof (rule nth_equalityI)
    fix k assume "k < length (rev bs)"
    then show "rev bs ! k = map of_bool (map (\<lambda>b. b = 1) (rev bs)) ! k"
      using v [of k] by auto
  qed simp
  have "horner_sum id 2 (rev bs) = horner_sum of_bool (2::int) (map (\<lambda>b. b = 1) (rev bs))"
    by (subst e) (simp only: horner_sum_eq_sum_funpow, simp)
  then have b: "bit (horner_sum id (2::int) (rev bs)) k \<longleftrightarrow> k < ?n \<and> rev bs ! k = 1" for k
    by (auto simp: bit_horner_sum_bit_iff)
  have "map (\<lambda>k. if bit (horner_sum id (2::int) (rev bs)) k then 1 else 0) [0..<?n] = rev bs"
  proof (rule nth_equalityI)
    fix k assume "k < length (map (\<lambda>k. if bit (horner_sum id (2::int) (rev bs)) k then 1 else 0) [0..<?n])"
    then have "k < ?n" by simp
    then show "map (\<lambda>k. if bit (horner_sum id (2::int) (rev bs)) k then 1 else 0) [0..<?n] ! k = rev bs ! k"
      using v [of k] by (auto simp: b)
  qed simp
  then show ?thesis
    by (simp add: bits_of_def)
qed

text \<open>
  Claim C8.  For at most ten wires the two conversions are inverse to each other: turning a
  basis index below \<open>2 ^ n\<close> into its bit-vector with \<open>states_to_binary\<close> (first wire most
  significant) and weighting the bits big-endian gives the index back, and converting the
  index of any \<open>n\<close>-bit vector gives the vector back.
\<close>

theorem basis_conversion_round_trip:
  assumes "n \<le> 10"
  shows "(\<forall>i. 0 \<le> i \<and> i < 2 ^ n \<longrightarrow>
            map binary_to_index (states_to_binary [i] n Int64) = [i])
       \<and> (\<forall>bits. length bits = n \<and> bitlist bits \<longrightarrow>
            states_to_binary [binary_to_index bits] n Int64 = [bits])"
proof -
  from assms have n: "n \<le> 63" by simp
  have a: "map binary_to_index (states_to_binary [i] n Int64) = [i]" if "0 \<le> i" "i < 2 ^ n" for i
    using that n by (simp add: states_to_binary_Int64 binary_to_index_bits_of)
  have b: "states_to_binary [binary_to_index bits] n Int64 = [bits]"
    if l: "length bits = n" and bl: "bitlist bits" for bits
  proof -
    from l n have "length bits \<le> 63" by simp
    with bl have "binary_to_index bits = horner_sum id 2 (rev bits)"
      by (rule binary_to_index_horner)
    moreover from bl have "bits_of (length bits) (horner_sum id 2 (rev bits)) = bits"
      by (rule bits_of_horner)
    ultimately show ?thesis
      using l n by (simp add: states_to_binary_Int64)
  qed
  from a b show ?thesis by blast
qed

theorem basis_conversion_round_trip_witness:
  "(3::nat) \<le> 10 \<and> (0::int) \<le> 5 \<and> (5::int) < 2 ^ 3
   \<and> map binary_to_index (states_to_binary [5] 3 Int64) = [5]
   \<and> length [1, 1, 0 :: int] = 3 \<and> bitlist [1, 1, 0]
   \<and> states_to_binary [binary_to_index [1, 1, 0]] 3 Int64 = [[1, 1, 0]]"
proof -
  have h: "(3::nat) \<le> 10" by simp
  have a: "(0::int) \<le> 5 \<and> (5::int) < 2 ^ 3" by simp
  have b: "length [1, 1, 0 :: int] = 3 \<and> bitlist [1, 1, 0]" by (simp add: bitlist_def)
  note t = basis_conversion_round_trip [OF h]
  from t a have c: "map binary_to_index (states_to_binary [5] 3 Int64) = [5]" by blast
  from t b have d: "states_to_binary [binary_to_index [1, 1, 0]] 3 Int64 = [[1, 1, 0]]" by blast
  from h a b c d show ?thesis by blast
qed

section \<open>Facts about the basis states\<close>

lemma bits_of_Suc: "bits_of (Suc n) i = (if bit i n then 1 else 0) # bits_of n i"
  by (simp add: bits_of_def)

lemma bit_low_nat: "i < 2 ^ n \<Longrightarrow> \<not> bit (i::nat) n"
  by (simp add: bit_iff_odd)

lemma bit_high_nat: "i < 2 ^ n \<Longrightarrow> bit (i + 2 ^ n :: nat) n"
  by (simp add: bit_iff_odd)

lemma bit_add_pow_low_nat: "k < n \<Longrightarrow> bit (i + 2 ^ n :: nat) k \<longleftrightarrow> bit i k"
proof -
  assume "k < n"
  then obtain d where n: "n = k + Suc d" by (auto simp: less_iff_Suc_add)
  have e: "(2::nat) ^ n = 2 ^ k * 2 ^ Suc d" unfolding n by (rule power_add)
  have "(i + 2 ^ k * 2 ^ Suc d) div 2 ^ k = 2 ^ Suc d + i div 2 ^ k"
    by (rule div_mult_self2) simp
  then have "odd ((i + 2 ^ n) div 2 ^ k) \<longleftrightarrow> odd (i div 2 ^ k)"
    by (simp only: e) simp
  then show ?thesis
    by (simp only: bit_iff_odd)
qed

lemma bit_low_int: "i < 2 ^ n \<Longrightarrow> \<not> bit (int i) n"
  by (simp only: bit_of_nat_iff_bit bit_low_nat not_False_eq_True)

lemma bit_high_int: "i < 2 ^ n \<Longrightarrow> bit (int (i + 2 ^ n)) n"
  by (simp only: bit_of_nat_iff_bit bit_high_nat)

lemma bits_of_add_pow: "bits_of n (int (i + 2 ^ n)) = bits_of n (int i)"
proof -
  have "map (\<lambda>k. if bit (int (i + 2 ^ n)) k then 1 else (0::int)) [0..<n]
      = map (\<lambda>k. if bit (int i) k then 1 else 0) [0..<n]"
    by (rule map_cong) (simp_all only: bit_of_nat_iff_bit bit_add_pow_low_nat set_upt atLeastLessThan_iff)
  then show ?thesis by (simp only: bits_of_def)
qed

lemma upt_pow_Suc: "[0..<2 ^ Suc n] = [0..<2 ^ n] @ map (\<lambda>i. i + 2 ^ n) [0..<2 ^ n]"
proof -
  have "[0..<2 ^ n + 2 ^ n] = [0..<2 ^ n] @ [2 ^ n..<2 ^ n + 2 ^ n]"
    by (rule upt_add_eq_append) simp
  moreover have "(2::nat) ^ Suc n = 2 ^ n + 2 ^ n" by simp
  ultimately show ?thesis by (simp only: map_add_upt)
qed

lemma product_bits_eq: "product_bits n = map (\<lambda>i. bits_of n (int i)) [0..<2 ^ n]"
proof (induction n)
  case 0
  show ?case by (simp add: bits_of_def)
next
  case (Suc n)
  have lo: "map (\<lambda>i. bits_of (Suc n) (int i)) [0..<2 ^ n] = map ((#) 0) (product_bits n)"
    by (simp add: Suc bits_of_Suc bit_low_int)
  have hi: "map (\<lambda>i. bits_of (Suc n) (int i)) (map (\<lambda>i. i + 2 ^ n) [0..<2 ^ n])
            = map ((#) 1) (product_bits n)"
  proof -
    have "map (\<lambda>i. bits_of (Suc n) (int (i + 2 ^ n))) [0..<2 ^ n]
        = map (\<lambda>i. 1 # bits_of n (int i)) [0..<2 ^ n]"
    proof (rule map_cong)
      fix i assume "i \<in> set [0..<(2::nat) ^ n]"
      then have "i < 2 ^ n" by simp
      then show "bits_of (Suc n) (int (i + 2 ^ n)) = 1 # bits_of n (int i)"
        by (simp only: bits_of_Suc bit_high_int bits_of_add_pow if_True)
    qed simp
    then show ?thesis
      by (simp only: map_map comp_def Suc)
  qed
  show ?case
    by (simp only: upt_pow_Suc map_append lo hi) simp
qed

lemma generate_basis_states_eq:
  assumes "0 < n"
  shows "generate_basis_states n = Inr (map (\<lambda>i. bits_of n (int i)) [0..<2 ^ n])"
proof (cases "2 < n \<and> n < 32")
  case True
  have "wrap UInt32 (int i) = int i" if "i < 2 ^ n" for i
  proof (rule wrap_UInt32_id)
    have "(2::nat) ^ n < 2 ^ 32" using True by (intro power_strict_increasing) simp_all
    with that have "i < 2 ^ 32" by simp
    then have "int i < int (2 ^ 32)" by (simp only: of_nat_less_iff)
    then show "int i < 2 ^ 32" by simp
  qed simp
  then have "map (\<lambda>i. wrap UInt32 (int i)) [0..<2 ^ n] = map int [0..<2 ^ n]"
    by simp
  with True show ?thesis
    by (simp add: generate_basis_states_def states_to_binary_UInt32 comp_def del: wrap.simps)
next
  case False
  with assms show ?thesis
    by (auto simp: generate_basis_states_def product_bits_eq)
qed

lemma length_product_bits [simp]: "length (product_bits n) = 2 ^ n"
  by (simp add: product_bits_eq)

lemma set_product_bits: "set (product_bits n) = {bs. length bs = n \<and> bitlist bs}"
proof (induction n)
  case 0
  show ?case by (auto simp: bitlist_def)
next
  case (Suc n)
  show ?case
  proof (intro set_eqI iffI)
    fix bs assume "bs \<in> set (product_bits (Suc n))"
    then show "bs \<in> {bs. length bs = Suc n \<and> bitlist bs}"
      using Suc by (auto simp: bitlist_def)
  next
    fix bs assume "bs \<in> {bs. length bs = Suc n \<and> bitlist bs}"
    then obtain b bs' where bs: "bs = b # bs'" "length bs' = n" "bitlist bs'" "b = 0 \<or> b = 1"
      by (cases bs) (auto simp: bitlist_def)
    then have "bs' \<in> set (product_bits n)" using Suc by simp
    with bs show "bs \<in> set (product_bits (Suc n))" by auto
  qed
qed

lemma distinct_product_bits: "distinct (product_bits n)"
  by (induction n) (auto simp: distinct_map)

section \<open>Facts about counts\<close>

lemma update_fresh: "k \<notin> fst ` set al \<Longrightarrow> AList.update k v al = al @ [(k, v)]"
  by (induction al) auto

lemma fold_update_fresh:
  "distinct ks \<Longrightarrow> set ks \<inter> fst ` set al = {} \<Longrightarrow>
   fold (\<lambda>k d. AList.update k v d) ks al = al @ map (\<lambda>k. (k, v)) ks"
proof (induction ks arbitrary: al)
  case Nil
  show ?case by simp
next
  case (Cons k ks)
  from Cons.prems have k: "k \<notin> fst ` set al" by auto
  from Cons.prems have "distinct ks" "set ks \<inter> fst ` set (al @ [(k, v)]) = {}" by auto
  then have "fold (\<lambda>k d. AList.update k v d) ks (al @ [(k, v)]) = (al @ [(k, v)]) @ map (\<lambda>k. (k, v)) ks"
    by (rule Cons.IH)
  then show ?case by (simp add: update_fresh [OF k])
qed

lemma update_tabulated:
  "distinct ks \<Longrightarrow> s \<in> set ks \<Longrightarrow>
   AList.update s c (map (\<lambda>k. (k, f k)) ks) = map (\<lambda>k. (k, (f(s := c)) k)) ks"
proof (induction ks)
  case Nil
  then show ?case by simp
next
  case (Cons k ks)
  show ?case
  proof (cases "k = s")
    case True
    with Cons.prems have "s \<notin> set ks" by simp
    then have "map (\<lambda>k. (k, (f(s := c)) k)) ks = map (\<lambda>k. (k, f k)) ks"
      by (intro map_cong) auto
    with True show ?thesis by simp
  next
    case False
    with Cons show ?thesis by simp
  qed
qed

lemma fold_update_tabulated:
  "distinct ks \<Longrightarrow> fst ` set us \<subseteq> set ks \<Longrightarrow>
   fold (\<lambda>(s, c) d. AList.update s c d) us (map (\<lambda>k. (k, f k)) ks)
     = map (\<lambda>k. (k, fold (\<lambda>(s, c) f. f(s := c)) us f k)) ks"
proof (induction us arbitrary: f)
  case Nil
  show ?case by simp
next
  case (Cons u us)
  obtain s c where u: "u = (s, c)" by (cases u)
  with Cons.prems have s: "s \<in> set ks" and rest: "fst ` set us \<subseteq> set ks" by auto
  show ?case
    using Cons.IH [OF Cons.prems(1) rest, of "f(s := c)"]
    by (simp add: u update_tabulated [OF Cons.prems(1) s])
qed

lemma fold_fun_upd_tabulated:
  "fold (\<lambda>(s, c) f. f(s := c)) (map (\<lambda>v. (v, g v)) vs) f k = (if k \<in> set vs then g k else f k)"
  by (induction vs arbitrary: f) auto

lemma count_outcomes_tabulated:
  assumes "distinct outcomes" and "set samples \<subseteq> set outcomes"
  shows "count_outcomes outcomes samples = map (\<lambda>k. (k, count_list samples k)) outcomes"
proof -
  have d0: "fold (\<lambda>k d. AList.update k 0 d) outcomes [] = map (\<lambda>k. (k, (\<lambda>_. 0::nat) k)) outcomes"
    using fold_update_fresh [OF assms(1), of "[]" 0] by simp
  have sub: "fst ` set (np_unique samples) \<subseteq> set outcomes"
    using assms(2) by (auto simp: np_unique_def)
  have val: "fold (\<lambda>(s, c) f. f(s := c)) (np_unique samples) (\<lambda>_. 0) k = count_list samples k" for k
    unfolding np_unique_def by (simp add: fold_fun_upd_tabulated count_list_0_iff)
  show ?thesis
    unfolding count_outcomes_def Let_def d0
    by (simp only: fold_update_tabulated [OF assms(1) sub] val)
qed

lemma sum_count_outcomes:
  assumes "distinct outcomes" and "set samples \<subseteq> set outcomes"
  shows "sum_list (map (count_list samples) outcomes) = length samples"
proof -
  have "sum_list (map (count_list samples) outcomes) = sum (count_list samples) (set outcomes)"
    using assms(1) by (rule sum_list_distinct_conv_sum_set)
  also have "\<dots> = length samples"
    using assms(2) by (intro sum_count_set) simp_all
  finally show ?thesis .
qed

lemma str_int_bits: "str_int 0 = ''0''" "str_int 1 = ''1''"
  by (simp_all add: str_int_def str_nat.simps [of 0] str_nat.simps [of "Suc 0"] digit_char_def)

lemma join_str_bitlist: "bitlist row \<Longrightarrow> join_str row = map bit_char row"
proof (induction row)
  case Nil
  show ?case by (simp add: join_str_def)
next
  case (Cons b row)
  then have "b = 0 \<or> b = 1" and "bitlist row" by (simp_all add: bitlist_def)
  with Cons.IH show ?case
    by (auto simp: join_str_def str_int_bits bit_char_def)
qed

lemma join_str_inj: "inj_on join_str {bs. bitlist bs}"
proof (rule inj_onI)
  fix a b assume a: "a \<in> {bs. bitlist bs}" and b: "b \<in> {bs. bitlist bs}"
    and e: "join_str a = join_str b"
  then have m: "map bit_char a = map bit_char b" by (simp add: join_str_bitlist)
  have "inj_on bit_char (set a \<union> set b)"
    using a b by (auto simp: inj_on_def bitlist_def bit_char_def)
  then show "a = b" using m by (simp add: inj_on_map_eq_map)
qed

lemma generate_basis_states_product:
  "0 < n \<Longrightarrow> generate_basis_states n = Inr (product_bits n)"
  by (simp add: generate_basis_states_eq product_bits_eq)

lemma distinct_outcome_strings: "distinct (map join_str (product_bits n))"
proof -
  have "inj_on join_str (set (product_bits n))"
    by (rule inj_on_subset [OF join_str_inj]) (auto simp: set_product_bits)
  then show ?thesis by (simp add: distinct_map distinct_product_bits)
qed

text \<open>
  Claim C7.  With the all-outcomes flag set, counting the raw samples of \<open>n \<ge> 1\<close> wires
  (every sample a row of \<open>n\<close> bits) gives a dictionary with exactly \<open>2 ^ n\<close> keys, pairwise
  distinct, each a string of \<open>n\<close> characters \<open>0\<close> or \<open>1\<close>, whose values add up to the number
  of samples.
\<close>

theorem counts_all_outcomes_complete:
  assumes "0 < n" and "\<forall>row \<in> set samples. length row = n \<and> bitlist row"
  shows "\<exists>d. samples_to_counts (RawSamples True samples) n = Inr (StrCounts d)
           \<and> length d = 2 ^ n
           \<and> distinct (map fst d)
           \<and> (\<forall>k \<in> set (map fst d). length k = n \<and> set k \<subseteq> {CHR ''0'', CHR ''1''})
           \<and> sum_list (map snd d) = length samples"
proof -
  let ?outcomes = "map join_str (product_bits n)"
  let ?strs = "map join_str samples"
  let ?d = "map (\<lambda>k. (k, count_list ?strs k)) ?outcomes"
  have dist: "distinct ?outcomes" by (rule distinct_outcome_strings)
  have sub: "set ?strs \<subseteq> set ?outcomes"
    using assms(2) by (auto simp: set_product_bits)
  have res: "samples_to_counts (RawSamples True samples) n = Inr (StrCounts ?d)"
    using assms(1)
    by (simp add: samples_to_counts_def generate_basis_states_product
        count_outcomes_tabulated [OF dist sub])
  have keys: "map fst ?d = ?outcomes" by (simp add: comp_def)
  have vals: "map snd ?d = map (count_list ?strs) ?outcomes" by (simp add: comp_def)
  have len: "length ?d = 2 ^ n" by simp
  have shape: "length k = n \<and> set k \<subseteq> {CHR ''0'', CHR ''1''}" if "k \<in> set ?outcomes" for k
  proof -
    from that obtain bs where bs: "k = join_str bs" "length bs = n" "bitlist bs"
      by (auto simp: set_product_bits)
    then have k: "k = map bit_char bs" by (simp add: join_str_bitlist)
    have "set (map bit_char bs) \<subseteq> {CHR ''0'', CHR ''1''}" by (auto simp: bit_char_def)
    with bs(2) show ?thesis unfolding k by simp
  qed
  have total: "sum_list (map snd ?d) = length samples"
    using sum_count_outcomes [OF dist sub] by (simp only: vals length_map)
  show ?thesis
    using res len dist shape total by (intro exI [of _ ?d]) (simp only: keys, blast)
qed

theorem counts_all_outcomes_complete_witness:
  "(0::nat) < 2
   \<and> list_all (\<lambda>row. length row = 2 \<and> bitlist row) [[0, 0], [0, 0], [1, 0 :: int]]
   \<and> (\<exists>d. samples_to_counts (RawSamples True [[0, 0], [0, 0], [1, 0]]) 2 = Inr (StrCounts d)
           \<and> length d = 2 ^ 2
           \<and> distinct (map fst d)
           \<and> (\<forall>k \<in> set (map fst d). length k = 2 \<and> set k \<subseteq> {CHR ''0'', CHR ''1''})
           \<and> sum_list (map snd d) = length [[0, 0], [0, 0], [1, 0 :: int]])"
proof -
  have h1: "(0::nat) < 2" by simp
  have h2: "\<forall>row \<in> set [[0, 0], [0, 0], [1, 0 :: int]]. length row = 2 \<and> bitlist row"
    by (simp add: bitlist_def)
  have h3: "list_all (\<lambda>row. length row = 2 \<and> bitlist row) [[0, 0], [0, 0], [1, 0 :: int]]"
    by (simp add: bitlist_def)
  from counts_all_outcomes_complete [OF h1 h2] h1 h3 show ?thesis by blast
qed

lemma counts_docstring_example:
  "samples_to_counts (RawSamples True [[0, 0], [0, 0], [1, 0]]) 2
     = Inr (StrCounts [(''00'', 2), (''01'', 0), (''10'', 1), (''11'', 0)])"
  by code_simp

section \<open>Facts about estimated probabilities\<close>

lemma py_index_nonneg: "0 \<le> v \<Longrightarrow> v < int n \<Longrightarrow> py_index n v = Inr (nat v)"
  by (simp add: py_index_def)





lemma select_columns_ok:
  "\<forall>row \<in> set rows. \<forall>c \<in> set cols. c < length row \<Longrightarrow>
   select_columns cols rows = Inr (map (\<lambda>row. map (\<lambda>c. row ! c) cols) rows)"
  unfolding select_columns_def
  by (intro map_err_Inr) (simp add: list_get_def)

lemma bitlist_select: "bitlist row \<Longrightarrow> \<forall>c \<in> set cols. c < length row \<Longrightarrow> bitlist (map (\<lambda>c. row ! c) cols)"
  by (auto simp: bitlist_def)

lemma binary_to_index_range:
  assumes "bitlist bs" and "length bs \<le> 63"
  shows "0 \<le> binary_to_index bs \<and> binary_to_index bs < 2 ^ length bs"
  using horner_bits_bounds [OF assms(1)] by (simp only: binary_to_index_horner [OF assms])







lemma estimate_probability_example:
  "estimate_probability example_device (Some [WInt 1]) None None = Inr (P1 [1/4, 3/4])"
  "estimate_probability example_device (Some [WInt 1]) None (Some 2) = Inr (P2 [[1/2, 0], [1/2, 1]])"
  by code_simp+

section \<open>Facts about marginal probabilities\<close>

lemma length_sum_axis [simp]: "length (sum_axis n a t) = 2 ^ (n - 1)"
  by (simp add: sum_axis_def Let_def)

lemma fold_sum_axis_length:
  "length t = 2 ^ n \<Longrightarrow>
   length (snd (fold (\<lambda>a (m, t). (m - 1, sum_axis m a t)) axes (n, t))) = 2 ^ (n - length axes)
   \<and> fst (fold (\<lambda>a (m, t). (m - 1, sum_axis m a t)) axes (n, t)) = n - length axes"
proof (induction axes arbitrary: n t)
  case Nil
  then show ?case by simp
next
  case (Cons a axes)
  have "length (sum_axis n a t) = 2 ^ (n - 1)" by simp
  from Cons.IH [OF this] show ?case by simp
qed

lemma reduce_sum_ok:
  assumes "distinct axes" and "\<forall>a \<in> set axes. a < n" and "length t = 2 ^ n"
  shows "\<exists>m. reduce_sum n axes t = Inr m \<and> length m = 2 ^ (n - length axes)"
proof -
  have "\<not> (\<not> distinct axes \<or> (\<exists>a \<in> set axes. n \<le> a))"
    using assms(1,2) by auto
  then have "reduce_sum n axes t
      = Inr (snd (fold (\<lambda>a (m, t). (m - 1, sum_axis m a t)) (rev (sort axes)) (n, t)))"
    by (simp only: reduce_sum_def if_False)
  moreover have "length (snd (fold (\<lambda>a (m, t). (m - 1, sum_axis m a t)) (rev (sort axes)) (n, t)))
      = 2 ^ (n - length (rev (sort axes)))"
    using fold_sum_axis_length [OF assms(3)] by blast
  ultimately show ?thesis by simp
qed

lemma length_filter_complement:
  assumes "distinct dw" and "distinct ws" and "set ws \<subseteq> set dw"
  shows "length (filter (\<lambda>w. w \<notin> set ws) dw) = length dw - length ws"
proof -
  have "length (filter (\<lambda>w. w \<notin> set ws) dw) = card ({w. w \<notin> set ws} \<inter> set dw)"
    using assms(1) by (rule distinct_length_filter)
  also have "{w. w \<notin> set ws} \<inter> set dw = set dw - set ws" by auto
  also have "card (set dw - set ws) = card (set dw) - card (set ws)"
    using assms(3) by (intro card_Diff_subset) simp_all
  also have "\<dots> = length dw - length ws"
    using assms(1,2) by (simp add: distinct_card)
  finally show ?thesis .
qed

lemma length_le_of_subset:
  assumes "distinct ws" and "set ws \<subseteq> set dw"
  shows "length ws \<le> length dw"
proof -
  have "card (set ws) \<le> card (set dw)" using assms(2) by (intro card_mono) simp_all
  with assms(1) show ?thesis
    by (metis card_length distinct_card order_trans)
qed

lemma unique_wires_subset:
  "set ws \<subseteq> set dw \<Longrightarrow> unique_wires dw ws = filter (\<lambda>w. w \<notin> set ws) dw"
  by (auto simp: unique_wires_def filter_empty_conv)

lemma inactive_axes:
  assumes "distinct dw" and "distinct ws" and "set ws \<subseteq> set dw"
  defines "axes \<equiv> map (device_index dw) (filter (\<lambda>w. w \<notin> set ws) dw)"
  shows "map_wires dw (unique_wires dw ws) = Inr axes"
    and "distinct axes" and "\<forall>a \<in> set axes. a < length dw"
    and "length dw - length axes = length ws"
proof -
  show "map_wires dw (unique_wires dw ws) = Inr axes"
    using assms(3) by (simp add: unique_wires_subset axes_def map_wires_ok)
  show "distinct axes"
    using assms(1) unfolding axes_def
    by (simp add: distinct_map inj_on_subset [OF device_index_inj])
  show "\<forall>a \<in> set axes. a < length dw"
    by (auto simp: axes_def device_index_less)
  have "length axes = length dw - length ws"
    using length_filter_complement [OF assms(1-3)] by (simp add: axes_def)
  moreover have "length ws \<le> length dw" using assms(2,3) by (rule length_le_of_subset)
  ultimately show "length dw - length axes = length ws" by simp
qed

lemma gather_nonneg:
  "\<forall>i \<in> set perm. 0 \<le> i \<and> i < int (length prob) \<Longrightarrow>
   gather prob perm = Inr (map (\<lambda>i. prob ! nat i) perm)"
  unfolding gather_def
  by (rule map_err_Inr) (simp add: py_index_nonneg)

lemma bitlist_bits_of_nth: "c < n \<Longrightarrow> bits_of n i ! c = 0 \<or> bits_of n i ! c = 1"
  using bitlist_bits_of [of n i] by (auto simp: bitlist_def dest!: bspec [OF _ nth_mem])

lemma reorder_index_range:
  assumes "\<forall>c \<in> set rank. c < length rank" and "length rank \<le> 63"
  shows "0 \<le> binary_to_index (map (\<lambda>c. bits_of (length rank) (int x) ! c) rank)"
    and "binary_to_index (map (\<lambda>c. bits_of (length rank) (int x) ! c) rank) < 2 ^ length rank"
    and "reorder_index rank x < 2 ^ length rank"
proof -
  let ?row = "map (\<lambda>c. bits_of (length rank) (int x) ! c) rank"
  have "bitlist ?row"
    using assms(1) by (intro bitlist_select) (simp_all add: bitlist_bits_of)
  moreover have "length ?row \<le> 63" using assms(2) by simp
  ultimately have r: "0 \<le> binary_to_index ?row \<and> binary_to_index ?row < 2 ^ length ?row"
    by (rule binary_to_index_range)
  then show "0 \<le> binary_to_index ?row" and lt: "binary_to_index ?row < 2 ^ length rank"
    by simp_all
  from r have "int (nat (binary_to_index ?row)) < int (2 ^ length rank)" by simp
  then show "reorder_index rank x < 2 ^ length rank"
    unfolding reorder_index_def by (simp only: of_nat_less_iff)
qed

lemma marginal_prob_gather:
  assumes dw: "distinct (self_wires dev)"
    and ws: "distinct ws" "set ws \<subseteq> set (self_wires dev)" "ws \<noteq> []" "length ws \<le> 63"
    and p: "length prob = 2 ^ length (self_wires dev)"
  shows "marginal_prob dev prob (Some ws)
           = Inr (map (\<lambda>x. device_marginal dev prob ws
                              ! reorder_index (argsort (argsort (map (device_index (self_wires dev)) ws))) x)
                    [0..<2 ^ length ws])"
    and "length (device_marginal dev prob ws) = 2 ^ length ws"
proof -
  let ?dw = "self_wires dev"
  let ?k = "length ws"
  let ?cols = "map (device_index ?dw) ws"
  let ?rank = "argsort (argsort ?cols)"
  let ?axes = "map (device_index ?dw) (filter (\<lambda>w. w \<notin> set ws) ?dw)"
  let ?rows = "map (\<lambda>i. bits_of ?k (int i)) [0..<2 ^ ?k]"
  note ax = inactive_axes [OF dw ws(1,2)]
  from reduce_sum_ok [OF ax(2,3) p] obtain m
    where m: "reduce_sum (length ?dw) ?axes prob = Inr m" "length m = 2 ^ (length ?dw - length ?axes)"
    by blast
  have dm: "device_marginal dev prob ws = m" by (simp add: device_marginal_def m(1))
  have lm: "length m = 2 ^ ?k" by (simp only: m(2) ax(4))
  show "length (device_marginal dev prob ws) = 2 ^ length ws" by (simp only: dm lm)
  have k0: "0 < ?k" using ws(3) by simp
  have lr: "length ?rank = ?k" by simp
  have rk: "\<forall>c \<in> set ?rank. c < length ?rank" by simp
  have sel: "select_columns ?rank ?rows = Inr (map (\<lambda>row. map (\<lambda>c. row ! c) ?rank) ?rows)"
    by (rule select_columns_ok) simp
  let ?perm = "map binary_to_index (map (\<lambda>row. map (\<lambda>c. row ! c) ?rank) ?rows)"
  have perm: "?perm = map (\<lambda>x. binary_to_index (map (\<lambda>c. bits_of (length ?rank) (int x) ! c) ?rank)) [0..<2 ^ ?k]"
    by (simp add: comp_def)
  have l63: "length ?rank \<le> 63" using ws(4) by simp
  have inr: "\<forall>i \<in> set ?perm. 0 \<le> i \<and> i < int (length m)"
  proof
    fix i assume "i \<in> set ?perm"
    then obtain x where i: "i = binary_to_index (map (\<lambda>c. bits_of (length ?rank) (int x) ! c) ?rank)"
      unfolding perm by auto
    from reorder_index_range(1,2) [OF rk l63, of x]
    have "0 \<le> i" "i < 2 ^ length ?rank" unfolding i by simp_all
    then show "0 \<le> i \<and> i < int (length m)" by (simp add: lm)
  qed
  have g: "gather m ?perm = Inr (map (\<lambda>i. m ! nat i) ?perm)"
    using inr by (rule gather_nonneg)
  have res: "map (\<lambda>i. m ! nat i) ?perm = map (\<lambda>x. m ! reorder_index ?rank x) [0..<2 ^ ?k]"
    unfolding perm by (simp add: comp_def reorder_index_def)
  have "marginal_prob dev prob (Some ws) = gather m ?perm"
    using ws(1,2) k0 p
    by (simp add: marginal_prob_def Wires_def map_wires_ok ax(1) m(1)
        generate_basis_states_eq sel Let_def)
  then show "marginal_prob dev prob (Some ws)
           = Inr (map (\<lambda>x. device_marginal dev prob ws ! reorder_index ?rank x) [0..<2 ^ length ws])"
    by (simp only: g res dm)
qed

lemma argsort_two: "i \<noteq> j \<Longrightarrow> argsort [i, j] = (if i < j then [0, 1] else [1, 0])"
  by (auto simp: argsort_def)

lemma argsort_argsort_two: "i \<noteq> j \<Longrightarrow> argsort (argsort [i, j]) = (if i < j then [0, 1] else [1, 0])"
  by (auto simp: argsort_two argsort_def)

lemma reorder_index_id2:
  "map (reorder_index [0, 1]) [0, 1, 2, 3] = [0, 1, 2, 3]"
  by code_simp

lemma reorder_index_swap2:
  "map (reorder_index [1, 0]) [0, 1, 2, 3] = [0, 2, 1, 3]"
  by code_simp

lemma upt_4: "[0..<2 ^ length [a, b]] = [0, 1, 2, 3]"
  by (simp add: upt_rec)

lemma order_wires_sort:
  "set ws \<subseteq> set dw \<Longrightarrow> order_wires dw ws = Inr (sort_key (device_index dw) ws)"
  by (simp add: order_wires_def map_wires_ok sort_key_zip_keys)

lemma filter_eq_sort_key:
  assumes "distinct dw" and "distinct ws" and "set ws \<subseteq> set dw"
  shows "filter (\<lambda>w. w \<in> set ws) dw = sort_key (device_index dw) ws"
  using order_wires_ok [OF assms] order_wires_sort [OF assms(3)] by simp

lemma device_index_neq:
  "w0 \<in> set dw \<Longrightarrow> w1 \<in> set dw \<Longrightarrow> w0 \<noteq> w1 \<Longrightarrow> device_index dw w0 \<noteq> device_index dw w1"
  using device_index_inj [of dw] by (auto simp: inj_on_def)

lemma permute_wires_two:
  assumes "distinct dw" and "w0 \<in> set dw" and "w1 \<in> set dw" and "w0 \<noteq> w1"
  shows "permute_wires dw [w0, w1] = Inr [w0, w1]"
proof -
  have d: "distinct [w0, w1]" and s: "set [w0, w1] \<subseteq> set dw" using assms by simp_all
  have ne: "device_index dw w0 \<noteq> device_index dw w1" using assms(2-4) by (rule device_index_neq)
  have "permute_for_observable_spec dw [w0, w1] = [w0, w1]"
    unfolding permute_for_observable_spec_def Let_def filter_eq_sort_key [OF assms(1) d s]
    using ne by (auto simp: argsort_two)
  with permute_wires_spec [OF assms(1) d s] show ?thesis by simp
qed

lemma device_marginal_swap:
  "device_marginal dev prob [w1, w0] = device_marginal dev prob [w0, w1]"
proof -
  have "set [w1, w0] = set [w0, w1]" by auto
  then show ?thesis unfolding device_marginal_def by (simp only:)
qed

lemma marginal_prob_two:
  assumes dw: "distinct (self_wires dev)"
    and w: "w0 \<in> set (self_wires dev)" "w1 \<in> set (self_wires dev)" "w0 \<noteq> w1"
    and p: "length prob = 2 ^ length (self_wires dev)"
  defines "m \<equiv> device_marginal dev prob [w0, w1]"
  shows "marginal_prob dev prob (Some [w0, w1])
           = Inr (if device_index (self_wires dev) w0 < device_index (self_wires dev) w1
                  then [m ! 0, m ! 1, m ! 2, m ! 3] else [m ! 0, m ! 2, m ! 1, m ! 3])"
proof -
  have d: "distinct [w0, w1]" and s: "set [w0, w1] \<subseteq> set (self_wires dev)"
    and ne: "[w0, w1] \<noteq> []" and l: "length [w0, w1] \<le> 63"
    using w by simp_all
  have neq: "device_index (self_wires dev) w0 \<noteq> device_index (self_wires dev) w1"
    using w by (rule device_index_neq)
  note g = marginal_prob_gather(1) [OF dw d s ne l p]
  show ?thesis
  proof (cases "device_index (self_wires dev) w0 < device_index (self_wires dev) w1")
    case True
    have "map (\<lambda>x. m ! reorder_index [0, 1] x) [0, 1, 2, 3] = map (\<lambda>i. m ! i) (map (reorder_index [0, 1]) [0, 1, 2, 3])"
      by (simp only: map_map comp_def)
    also have "\<dots> = [m ! 0, m ! 1, m ! 2, m ! 3]" by (simp only: reorder_index_id2) simp
    finally show ?thesis
      using True neq unfolding g upt_4 by (simp add: argsort_argsort_two m_def)
  next
    case False
    have "map (\<lambda>x. m ! reorder_index [1, 0] x) [0, 1, 2, 3] = map (\<lambda>i. m ! i) (map (reorder_index [1, 0]) [0, 1, 2, 3])"
      by (simp only: map_map comp_def)
    also have "\<dots> = [m ! 0, m ! 2, m ! 1, m ! 3]" by (simp only: reorder_index_swap2) simp
    finally show ?thesis
      using False neq unfolding g upt_4 by (simp add: argsort_argsort_two m_def)
  qed
qed

section \<open>Expectation values of tensor products\<close>

lemma all_wires_two: "w0 \<noteq> w1 \<Longrightarrow> all_wires [w0, w1] = [w0, w1]"
  by (simp add: all_wires_def)

lemma kron_two: "kron [a0, a1] [b0, b1] = [a0 * b0, a0 * b1, a1 * b0, a1 * b1]"
  by (simp add: kron_def)

lemma length_two: "length xs = 2 \<Longrightarrow> \<exists>x0 x1. xs = [x0, x1]"
  by (cases xs; cases "tl xs") auto

lemma expval_tensor_two:
  assumes dw: "distinct (self_wires dev)" and an: "self_shots dev = None"
    and p: "length (state_prob dev) = 2 ^ length (self_wires dev)"
    and w: "w0 \<in> set (self_wires dev)" "w1 \<in> set (self_wires dev)" "w0 \<noteq> w1"
    and A: "o_wires A = [w0]" "o_eigvals A = Some [a0, a1]"
    and B: "o_wires B = [w1]" "o_eigvals B = Some [b0, b1]"
  defines "m \<equiv> device_marginal dev (state_prob dev) [w0, w1]"
  shows "expval dev (tensor A B) shot_range bin_size
           = Inr (Scalar (Num (if device_index (self_wires dev) w0 < device_index (self_wires dev) w1
                               then m ! 0 * (a0 * b0) + m ! 1 * (a0 * b1) + m ! 2 * (a1 * b0) + m ! 3 * (a1 * b1)
                               else m ! 0 * (a0 * b0) + m ! 2 * (a0 * b1) + m ! 1 * (a1 * b0) + m ! 3 * (a1 * b1))))"
proof -
  have nm: "o_name (tensor A B) \<noteq> Name ''Projector''" by (simp add: tensor_def)
  have ow: "o_wires (tensor A B) = [w0, w1]" using w(3) by (simp add: tensor_def A B all_wires_two)
  have ev: "o_eigvals (tensor A B) = Some [a0 * b0, a0 * b1, a1 * b0, a1 * b1]"
    by (simp add: tensor_def A B kron_two)
  have pw: "permute_wires (self_wires dev) [w0, w1] = Inr [w0, w1]"
    using dw w by (rule permute_wires_two)
  have mp: "marginal_prob dev (state_prob dev) (Some [w0, w1])
           = Inr (if device_index (self_wires dev) w0 < device_index (self_wires dev) w1
                  then [m ! 0, m ! 1, m ! 2, m ! 3] else [m ! 0, m ! 2, m ! 1, m ! 3])"
    unfolding m_def using dw w p by (rule marginal_prob_two)
  have pr: "probability dev (Some [w0, w1]) None None
           = Inr (P1 (if device_index (self_wires dev) w0 < device_index (self_wires dev) w1
                  then [m ! 0, m ! 1, m ! 2, m ! 3] else [m ! 0, m ! 2, m ! 1, m ! 3]))"
    by (simp add: probability_def or_wires_def an analytic_probability_def mp)
  show ?thesis
    unfolding expval_def
    by (simp add: nm an ev ow pw pr dot_def)
qed

text \<open>
  Claim C2.  On an analytic device with a fixed probability vector, for two single-qubit
  observables with defined eigenvalues on two different device wires, the expectation value
  of \<open>A \<otimes> B\<close> (wires \<open>[w0, w1]\<close>) and that of \<open>B \<otimes> A\<close> (wires \<open>[w1, w0]\<close>) are computed without
  error and are the same number; the claim's wires 0 and 1 are one instance.  Expectation
  values are real numbers here.
\<close>

theorem expval_wire_order_invariance:
  assumes "distinct (self_wires dev)" and "self_shots dev = None"
    and "length (state_prob dev) = 2 ^ length (self_wires dev)"
    and "w0 \<in> set (self_wires dev)" and "w1 \<in> set (self_wires dev)" and "w0 \<noteq> w1"
    and "o_wires A = [w0]" and "o_wires B = [w1]"
    and "o_eigvals A = Some a" and "o_eigvals B = Some b" and "length a = 2" and "length b = 2"
  shows "\<exists>v. expval dev (tensor A B) shot_range bin_size = Inr (Scalar (Num v))
           \<and> expval dev (tensor B A) shot_range bin_size = Inr (Scalar (Num v))"
proof -
  from assms(11) obtain a0 a1 where a: "a = [a0, a1]" using length_two by blast
  from assms(12) obtain b0 b1 where b: "b = [b0, b1]" using length_two by blast
  let ?i0 = "device_index (self_wires dev) w0"
  let ?i1 = "device_index (self_wires dev) w1"
  have ne: "?i0 \<noteq> ?i1" using assms(4-6) by (rule device_index_neq)
  note ab = expval_tensor_two [OF assms(1-6) assms(7) assms(9) [unfolded a] assms(8) assms(10) [unfolded b],
      of shot_range bin_size]
  note ba = expval_tensor_two [OF assms(1-3) assms(5) assms(4) assms(6) [symmetric]
      assms(8) assms(10) [unfolded b] assms(7) assms(9) [unfolded a], of shot_range bin_size]
  show ?thesis
  proof (cases "?i0 < ?i1")
    case True
    then have "\<not> ?i1 < ?i0" by simp
    with True show ?thesis
      unfolding ab ba device_marginal_swap [of dev _ w1 w0]
      by (simp add: algebra_simps)
  next
    case False
    with ne have "?i1 < ?i0" by simp
    with False show ?thesis
      unfolding ab ba device_marginal_swap [of dev _ w1 w0]
      by (simp add: algebra_simps)
  qed
qed

theorem expval_wire_order_invariance_witness:
  "distinct (self_wires analytic_device) \<and> self_shots analytic_device = None
   \<and> length (state_prob analytic_device) = 2 ^ length (self_wires analytic_device)
   \<and> WInt 0 \<in> set (self_wires analytic_device) \<and> WInt 1 \<in> set (self_wires analytic_device)
   \<and> WInt 0 \<noteq> WInt 1
   \<and> o_wires hermitian_on_0 = [WInt 0] \<and> o_wires pauli_z_on_1 = [WInt 1]
   \<and> o_eigvals hermitian_on_0 = Some [2, 3] \<and> o_eigvals pauli_z_on_1 = Some [1, - 1]
   \<and> length [2, 3 :: real] = 2 \<and> length [1, - 1 :: real] = 2
   \<and> (\<exists>v. expval analytic_device (tensor hermitian_on_0 pauli_z_on_1) None None = Inr (Scalar (Num v))
           \<and> expval analytic_device (tensor pauli_z_on_1 hermitian_on_0) None None = Inr (Scalar (Num v)))"
proof -
  have h1: "distinct (self_wires analytic_device)" by (simp add: analytic_device_def)
  have h2: "self_shots analytic_device = None" by (simp add: analytic_device_def)
  have h3: "length (state_prob analytic_device) = 2 ^ length (self_wires analytic_device)"
    by (simp add: analytic_device_def)
  have h4: "WInt 0 \<in> set (self_wires analytic_device)" by (simp add: analytic_device_def)
  have h5: "WInt 1 \<in> set (self_wires analytic_device)" by (simp add: analytic_device_def)
  have h6: "WInt 0 \<noteq> WInt 1" by simp
  have h7: "o_wires hermitian_on_0 = [WInt 0]" by (simp add: hermitian_on_0_def)
  have h8: "o_wires pauli_z_on_1 = [WInt 1]" by (simp add: pauli_z_on_1_def)
  have h9: "o_eigvals hermitian_on_0 = Some [2, 3]" by (simp add: hermitian_on_0_def)
  have h10: "o_eigvals pauli_z_on_1 = Some [1, - 1]" by (simp add: pauli_z_on_1_def)
  have h11: "length [2, 3 :: real] = 2" by simp
  have h12: "length [1, - 1 :: real] = 2" by simp
  from expval_wire_order_invariance [OF h1 h2 h3 h4 h5 h6 h7 h8 h9 h10 h11 h12, of None None]
    h1 h2 h3 h4 h5 h6 h7 h8 h9 h10 h11 h12
  show ?thesis by blast
qed

lemma expval_example:
  "expval analytic_device (tensor hermitian_on_0 pauli_z_on_1) None None = Inr (Scalar (Num (- 1/2)))"
  "expval analytic_device (tensor pauli_z_on_1 hermitian_on_0) None None = Inr (Scalar (Num (- 1/2)))"
  by code_simp+

section \<open>Default wires\<close>

lemma or_wires_default [simp]:
  "or_wires None dw = dw" "or_wires (Some []) dw = dw" "or_wires (Some dw) dw = dw"
  by (simp_all add: or_wires_def)








lemma probability_default_example:
  "probability analytic_device (Some []) None None = Inr (P1 [1/10, 2/10, 3/10, 4/10])"
  "estimate_probability example_device None None None = Inr (P1 [0, 1/4, 1/4, 1/2])"
  by code_simp+

section \<open>The basis-state permutation of marginal probabilities\<close>

lemma three_wire_facts:
  "self_wires three_wire_device = [WInt 0, WInt 1, WInt 2]"
  "distinct (self_wires three_wire_device)"
  "length (self_wires three_wire_device) = 3"
  by (simp_all add: three_wire_device_def)

lemma three_wire_index:
  "device_index [WInt 0, WInt 1, WInt 2] (WInt 0) = 0"
  "device_index [WInt 0, WInt 1, WInt 2] (WInt 1) = 1"
  "device_index [WInt 0, WInt 1, WInt 2] (WInt 2) = 2"
  by (simp_all add: device_index_def)





lemma device_marginal_2_0:
  "device_marginal three_wire_device [p0, p1, p2, p3, p4, p5, p6, p7] [WInt 0, WInt 2]
     = [p0 + p2, p1 + p3, p4 + p6, p5 + p7]"
proof -
  have u: "[0..<4] = [0, 1, 2, 3]" by code_simp
  show ?thesis
    by (simp add: device_marginal_def three_wire_facts three_wire_index reduce_sum_def
        sum_axis_def u)
qed

lemma marginal_prob_2_0:
  "marginal_prob three_wire_device [p0, p1, p2, p3, p4, p5, p6, p7] (Some [WInt 2, WInt 0])
     = Inr [p0 + p2, p4 + p6, p1 + p3, p5 + p7]"
proof -
  let ?p = "[p0, p1, p2, p3, p4, p5, p6, p7]"
  have p: "length ?p = 2 ^ length (self_wires three_wire_device)"
    by (simp add: three_wire_facts)
  have w: "WInt 2 \<in> set (self_wires three_wire_device)" "WInt 0 \<in> set (self_wires three_wire_device)"
    "WInt 2 \<noteq> WInt 0"
    by (simp_all add: three_wire_facts)
  note t = marginal_prob_two [OF three_wire_facts(2) w p]
  have sw: "device_marginal three_wire_device ?p [WInt 2, WInt 0]
              = device_marginal three_wire_device ?p [WInt 0, WInt 2]"
    by (rule device_marginal_swap)
  show ?thesis
    unfolding t sw device_marginal_2_0 by (simp add: three_wire_facts three_wire_index)
qed







lemma marginal_prob_documented_example:
  "marginal_prob three_wire_device [p0, p1, p2, p3, p4, p5, p6, p7] (Some [WInt 2, WInt 0])
     = Inr [p0 + p2, p4 + p6, p1 + p3, p5 + p7]"
  "marginal_prob three_wire_device [p0, p1, p2, p3, p4, p5, p6, p7] (Some [WInt 0, WInt 2])
     = Inr [p0 + p2, p1 + p3, p4 + p6, p5 + p7]"
proof -
  show "marginal_prob three_wire_device [p0, p1, p2, p3, p4, p5, p6, p7] (Some [WInt 2, WInt 0])
     = Inr [p0 + p2, p4 + p6, p1 + p3, p5 + p7]"
    by (rule marginal_prob_2_0)
  have p: "length [p0, p1, p2, p3, p4, p5, p6, p7] = 2 ^ length (self_wires three_wire_device)"
    by (simp add: three_wire_facts)
  have w: "WInt 0 \<in> set (self_wires three_wire_device)" "WInt 2 \<in> set (self_wires three_wire_device)"
    "WInt 0 \<noteq> WInt 2"
    by (simp_all add: three_wire_facts)
  note t = marginal_prob_two [OF three_wire_facts(2) w p]
  show "marginal_prob three_wire_device [p0, p1, p2, p3, p4, p5, p6, p7] (Some [WInt 0, WInt 2])
     = Inr [p0 + p2, p1 + p3, p4 + p6, p5 + p7]"
    unfolding t device_marginal_2_0 by (simp add: three_wire_facts three_wire_index)
qed


section \<open>Facts about execution and dispatch\<close>







lemma snd_call [simp]: "snd (call k rt m co sr bs dev) = [Called rt]"
  by (simp add: call_def)















section \<open>Measurements that cannot be combined\<close>




section \<open>The checks of the entropy measurements\<close>




section \<open>Facts about classical shadows\<close>

lemma classical_shadow_recipes:
  assumes "fst (classical_shadow k randint gates entropy dev obs circuit) = Inr (bits, recipes)"
  shows "\<exists>snapshots rng. self_shots dev = Some snapshots
            \<and> RandomState (m_seed obs) entropy = Inr rng
            \<and> recipes = map (map (wrap Int8)) (randint rng snapshots (length (m_wires obs)))"
proof (cases circuit)
  case None
  then show ?thesis using assms by (simp add: classical_shadow_def)
next
  case (Some c)
  show ?thesis
  proof (cases "map_wires (self_wires (set_shots dev 1)) (m_wires obs)")
    case (Inl e)
    then show ?thesis using assms Some by (simp add: classical_shadow_def Let_def)
  next
    case mw: (Inr mapped_wires)
    show ?thesis
    proof (cases "RandomState (m_seed obs) entropy")
      case (Inl e)
      then show ?thesis using assms Some mw by (simp add: classical_shadow_def Let_def)
    next
      case rs: (Inr rng)
      show ?thesis
      proof (cases "self_shots dev")
        case None
        then show ?thesis using assms Some mw rs by (simp add: classical_shadow_def Let_def)
      next
        case sh: (Some snapshots)
        let ?recipes = "randint rng snapshots (length (m_wires obs))"
        obtain r events where sn:
          "shadow_snapshots k gates c (m_wires obs) mapped_wires ?recipes [0..<snapshots]
             (set_shots dev 1) = (r, events)"
          by (cases "shadow_snapshots k gates c (m_wires obs) mapped_wires ?recipes [0..<snapshots]
             (set_shots dev 1)")
        show ?thesis
        proof (cases r)
          case (Inl e)
          then show ?thesis using assms Some mw rs sh sn by (simp add: classical_shadow_def Let_def)
        next
          case (Inr outcomes)
          then have "recipes = map (map (wrap Int8)) ?recipes"
            using assms Some mw rs sh sn
            by (simp add: classical_shadow_def Let_def split: if_splits)
          then show ?thesis using sh rs by simp
        qed
      qed
    qed
  qed
qed

lemma wrap_Int8_label: "0 \<le> x \<Longrightarrow> x < 3 \<Longrightarrow> wrap Int8 x = x"
  unfolding wrap.simps by (rule signed_take_bit_int_eq_self) simp_all

lemma map_wrap_Int8_labels:
  assumes "\<forall>row \<in> set rows. \<forall>x \<in> set row. 0 \<le> x \<and> x < 3"
  shows "map (map (wrap Int8)) rows = rows"
proof -
  have label: "wrap Int8 x = x" if "row \<in> set rows" "x \<in> set row" for row x
    using assms that by (intro wrap_Int8_label) auto
  have row: "map (wrap Int8) row = row" if "row \<in> set rows" for row
    by (rule map_idI) (rule label [OF that])
  show ?thesis by (rule map_idI) (rule row)
qed

lemma shadow_snapshots_ok:
  assumes apply_ok: "\<And>ops rotations d. \<exists>state. k_apply k ops rotations d = Inr state"
    and samples_ok: "\<And>d. self_wires d = dw \<Longrightarrow> self_shots d = Some 1
                        \<Longrightarrow> \<exists>row rest. k_generate_samples k d = Inr (row # rest)
                              \<and> (\<forall>i \<in> set mapped_wires. i < length row)"
    and rows: "\<forall>t \<in> set ts. t < length recipes"
    and cols: "\<forall>row \<in> set recipes. length wires \<le> length row \<and> (\<forall>x \<in> set row. 0 \<le> x \<and> x < 3)"
    and dev: "self_wires dev = dw" "self_shots dev = Some 1"
  shows "\<exists>outcomes. fst (shadow_snapshots k gates c wires mapped_wires recipes ts dev) = Inr outcomes
           \<and> map length outcomes = map (\<lambda>t. length mapped_wires) ts"
  using rows dev
proof (induction ts arbitrary: dev)
  case Nil
  then show ?case by simp
next
  case (Cons t ts)
  let ?recipe = "recipes ! t"
  have t: "t < length recipes" using Cons.prems by simp
  then have rec: "list_get recipes t = Inr ?recipe" by (simp add: list_get_def)
  have in_set: "?recipe \<in> set recipes" using t by simp
  let ?f = "\<lambda>p. case list_get ?recipe (fst p) of
                   Inl e \<Rightarrow> Inl e
                 | Inr label \<Rightarrow>
                     (case py_index 3 label of
                        Inl e \<Rightarrow> Inl e
                      | Inr i \<Rightarrow> Inr (gates i (snd p)))"
  have rot: "map_err ?f (zip [0..<length wires] wires)
               = Inr (map (\<lambda>p. gates (nat (?recipe ! fst p)) (snd p)) (zip [0..<length wires] wires))"
  proof (rule map_err_Inr)
    fix p assume "p \<in> set (zip [0..<length wires] wires)"
    then have "fst p \<in> set [0..<length wires]" by (metis in_set_zipE prod.collapse)
    then have lt: "fst p < length ?recipe" using cols in_set by auto
    then have m: "?recipe ! fst p \<in> set ?recipe" by simp
    have lab: "0 \<le> ?recipe ! fst p \<and> ?recipe ! fst p < 3" using cols in_set m by blast
    then have "py_index 3 (?recipe ! fst p) = Inr (nat (?recipe ! fst p))"
      by (simp add: py_index_def)
    then show "?f p = Inr (gates (nat (?recipe ! fst p)) (snd p))"
      using lt by (simp add: list_get_def)
  qed
  let ?rotations = "map (\<lambda>p. gates (nat (?recipe ! fst p)) (snd p)) (zip [0..<length wires] wires)"
  let ?d1 = "reset k dev"
  obtain state where ap:
    "k_apply k (operations c) (diagonalizing_gates c @ concat ?rotations) ?d1 = Inr state"
    using apply_ok by blast
  let ?d2 = "?d1\<lparr>state_prob := state\<rparr>"
  have d2: "self_wires ?d2 = dw" "self_shots ?d2 = Some 1"
    using Cons.prems(2,3) by (simp_all add: reset_def)
  obtain row rest where gs: "k_generate_samples k ?d2 = Inr (row # rest)"
    and rl: "\<forall>i \<in> set mapped_wires. i < length row"
    using samples_ok [OF d2] by blast
  have g0: "list_get (row # rest) 0 = Inr row" by (simp add: list_get_def)
  have out: "map_err (list_get row) mapped_wires = Inr (map (\<lambda>i. row ! i) mapped_wires)"
    by (rule map_err_Inr) (simp add: list_get_def rl)
  have "\<forall>t \<in> set ts. t < length recipes" using Cons.prems by simp
  from Cons.IH [OF this d2]
  obtain outcomes events where
    ih: "shadow_snapshots k gates c wires mapped_wires recipes ts ?d2 = (Inr outcomes, events)"
    and len: "map length outcomes = map (\<lambda>t. length mapped_wires) ts"
    by (metis prod.collapse)
  have "shadow_snapshots k gates c wires mapped_wires recipes (t # ts) dev
          = (Inr (map (\<lambda>i. row ! i) mapped_wires # outcomes),
             [Reset, ApplyGates, GenerateSamples] @ events)"
    by (simp add: rec rot ap gs g0 out ih Let_def)
  then show ?case using len by simp
qed

lemma classical_shadow_ok:
  assumes apply_ok: "\<And>ops rotations d. \<exists>state. k_apply k ops rotations d = Inr state"
    and samples_ok: "\<And>d. self_wires d = self_wires dev \<Longrightarrow> self_shots d = Some 1
                        \<Longrightarrow> \<exists>row rest. k_generate_samples k d = Inr (row # rest)
                              \<and> length (self_wires dev) \<le> length row"
    and shape: "\<And>rows cols. length (randint (nat s) rows cols) = rows
                  \<and> (\<forall>row \<in> set (randint (nat s) rows cols).
                        length row = cols \<and> (\<forall>x \<in> set row. 0 \<le> x \<and> x < 3))"
    and wires: "set (m_wires obs) \<subseteq> set (self_wires dev)"
    and seed: "m_seed obs = Some s" "0 \<le> s" "s < 2 ^ 32"
    and shots: "self_shots dev = Some snapshots"
  shows "\<exists>bits. fst (classical_shadow k randint gates entropy dev obs (Some c))
                  = Inr (bits, randint (nat s) snapshots (length (m_wires obs)))
               \<and> length bits = snapshots"
proof -
  let ?n = "length (m_wires obs)"
  let ?mapped = "map (device_index (self_wires dev)) (m_wires obs)"
  let ?recipes = "randint (nat s) snapshots ?n"
  have mw: "map_wires (self_wires (set_shots dev 1)) (m_wires obs) = Inr ?mapped"
    using map_wires_ok [OF wires] by (simp add: set_shots_def)
  have rs: "RandomState (m_seed obs) entropy = Inr (nat s)"
    using seed by (simp add: RandomState_def)
  have so: "\<exists>row rest. k_generate_samples k d = Inr (row # rest)
              \<and> (\<forall>i \<in> set ?mapped. i < length row)"
    if d: "self_wires d = self_wires dev" "self_shots d = Some 1" for d
  proof -
    obtain row rest where g: "k_generate_samples k d = Inr (row # rest)"
      and l: "length (self_wires dev) \<le> length row"
      using samples_ok [OF d] by blast
    have "i < length row" if "i \<in> set ?mapped" for i
    proof -
      from that obtain w where "w \<in> set (m_wires obs)" "i = device_index (self_wires dev) w"
        by auto
      then have "i < length (self_wires dev)" using wires device_index_less by auto
      then show ?thesis using l by simp
    qed
    then show ?thesis using g by blast
  qed
  have rows: "\<forall>t \<in> set [0..<snapshots]. t < length ?recipes" using shape by simp
  have cols: "\<forall>row \<in> set ?recipes. ?n \<le> length row \<and> (\<forall>x \<in> set row. 0 \<le> x \<and> x < 3)"
    using shape [of snapshots ?n] by auto
  have d1: "self_wires (set_shots dev 1) = self_wires dev" "self_shots (set_shots dev 1) = Some 1"
    by (simp_all add: set_shots_def)
  from shadow_snapshots_ok [of k "self_wires dev" ?mapped "[0..<snapshots]" ?recipes "m_wires obs"
      "set_shots dev 1" gates c, OF apply_ok so rows cols d1]
  obtain outcomes events where
    sn: "shadow_snapshots k gates c (m_wires obs) ?mapped ?recipes [0..<snapshots] (set_shots dev 1)
           = (Inr outcomes, events)"
    and len: "map length outcomes = map (\<lambda>t. length ?mapped) [0..<snapshots]"
    by (metis prod.collapse)
  have lo: "length outcomes = snapshots" using len by (metis length_map length_upt minus_nat.diff_0)
  have "map length ?recipes = map (\<lambda>t. ?n) [0..<snapshots]"
  proof (rule nth_equalityI)
    show "length (map length ?recipes) = length (map (\<lambda>t. ?n) [0..<snapshots])"
      using shape by simp
  next
    fix i assume "i < length (map length ?recipes)"
    then have i: "i < length ?recipes" by simp
    then have "?recipes ! i \<in> set ?recipes" by simp
    then have "length (?recipes ! i) = ?n" using shape [of snapshots ?n] by blast
    then show "map length ?recipes ! i = map (\<lambda>t. ?n) [0..<snapshots] ! i"
      using i shape [of snapshots ?n] by simp
  qed
  then have same: "map length ?recipes = map length outcomes" using len by simp
  have id: "map (map (wrap Int8)) ?recipes = ?recipes"
    by (rule map_wrap_Int8_labels) (use shape [of snapshots ?n] in blast)
  have "fst (classical_shadow k randint gates entropy dev obs (Some c))
          = Inr (map (map (wrap Int8)) outcomes, ?recipes)"
    using same
    unfolding classical_shadow_def Let_def option.case mw sum.case rs shots sn prod.case
    by (simp add: id)
  then show ?thesis using lo by simp
qed

section \<open>Reproducible recipes of a classical shadow\<close>

text \<open>
  Claim C9.  Two runs of \<open>classical_shadow\<close> with the same seed, the same number of shots
  and the same number of measured wires that both return, return identical recipes,
  whatever the kernels, devices, circuits and diagonalizing gates are: the recipes are what
  the seeded generator draws for that seed and shape.  When the generator draws labels in
  \<open>{0, 1, 2}\<close>, every entry of the recipes is such a label.  And the run does return, with
  one row of bits per shot, when the seed is valid, the measured wires are wires of the
  device, and the kernel applies the gates and yields at least one sample row over the
  device wires.
\<close>

theorem classical_shadow_recipes_reproducible:
  "(m_seed obs1 = Some s \<and> m_seed obs2 = Some s \<and> self_shots dev1 = self_shots dev2
      \<and> length (m_wires obs1) = length (m_wires obs2)
      \<and> fst (classical_shadow k1 randint gates1 entropy1 dev1 obs1 circuit1) = Inr (bits1, recipes1)
      \<and> fst (classical_shadow k2 randint gates2 entropy2 dev2 obs2 circuit2) = Inr (bits2, recipes2)
      \<longrightarrow> recipes1 = recipes2)
   \<and> ((\<forall>seed rows cols. \<forall>row \<in> set (randint seed rows cols). \<forall>x \<in> set row. 0 \<le> x \<and> x < 3)
      \<and> fst (classical_shadow k1 randint gates1 entropy1 dev1 obs1 circuit1) = Inr (bits1, recipes1)
      \<longrightarrow> (\<forall>row \<in> set recipes1. \<forall>x \<in> set row. x \<in> {0, 1, 2}))
   \<and> ((\<forall>ops rotations d. \<exists>state. k_apply k1 ops rotations d = Inr state)
      \<and> (\<forall>d. self_wires d = self_wires dev1 \<and> self_shots d = Some 1 \<longrightarrow>
                (\<exists>row rest. k_generate_samples k1 d = Inr (row # rest)
                    \<and> length (self_wires dev1) \<le> length row))
      \<and> (\<forall>rows cols. length (randint (nat s) rows cols) = rows
                  \<and> (\<forall>row \<in> set (randint (nat s) rows cols).
                        length row = cols \<and> (\<forall>x \<in> set row. 0 \<le> x \<and> x < 3)))
      \<and> set (m_wires obs1) \<subseteq> set (self_wires dev1)
      \<and> m_seed obs1 = Some s \<and> 0 \<le> s \<and> s < 2 ^ 32 \<and> self_shots dev1 = Some snapshots
      \<longrightarrow> (\<exists>bits. fst (classical_shadow k1 randint gates1 entropy1 dev1 obs1 (Some c))
                     = Inr (bits, randint (nat s) snapshots (length (m_wires obs1)))
                  \<and> length bits = snapshots))"
proof -
  have same: "recipes1 = recipes2"
    if "m_seed obs1 = Some s" "m_seed obs2 = Some s" "self_shots dev1 = self_shots dev2"
      "length (m_wires obs1) = length (m_wires obs2)"
      "fst (classical_shadow k1 randint gates1 entropy1 dev1 obs1 circuit1) = Inr (bits1, recipes1)"
      "fst (classical_shadow k2 randint gates2 entropy2 dev2 obs2 circuit2) = Inr (bits2, recipes2)"
  proof -
    from classical_shadow_recipes [OF that(5)] obtain t1 rng1 where
      a: "self_shots dev1 = Some t1" "RandomState (m_seed obs1) entropy1 = Inr rng1"
        "recipes1 = map (map (wrap Int8)) (randint rng1 t1 (length (m_wires obs1)))"
      by blast
    from classical_shadow_recipes [OF that(6)] obtain t2 rng2 where
      b: "self_shots dev2 = Some t2" "RandomState (m_seed obs2) entropy2 = Inr rng2"
        "recipes2 = map (map (wrap Int8)) (randint rng2 t2 (length (m_wires obs2)))"
      by blast
    have "t1 = t2" using a(1) b(1) that(3) by simp
    moreover have "rng1 = rng2"
      using a(2) b(2) that(1,2) by (simp add: RandomState_def split: if_splits)
    ultimately show ?thesis using a(3) b(3) that(4) by simp
  qed
  have labels: "\<forall>row \<in> set recipes1. \<forall>x \<in> set row. x \<in> {0, 1, 2}"
    if c: "\<forall>seed rows cols. \<forall>row \<in> set (randint seed rows cols). \<forall>x \<in> set row. 0 \<le> x \<and> x < 3"
      and r: "fst (classical_shadow k1 randint gates1 entropy1 dev1 obs1 circuit1) = Inr (bits1, recipes1)"
  proof -
    from classical_shadow_recipes [OF r] obtain t1 rng1 where
      a: "recipes1 = map (map (wrap Int8)) (randint rng1 t1 (length (m_wires obs1)))"
      by blast
    let ?raw = "randint rng1 t1 (length (m_wires obs1))"
    have raw: "\<forall>row \<in> set ?raw. \<forall>x \<in> set row. 0 \<le> x \<and> x < 3" using c by blast
    have "recipes1 = ?raw" unfolding a by (rule map_wrap_Int8_labels [OF raw])
    moreover have "x \<in> {0, 1, 2}" if "0 \<le> x \<and> x < 3" for x :: int using that by auto
    ultimately show ?thesis using raw by blast
  qed
  have returns: "\<exists>bits. fst (classical_shadow k1 randint gates1 entropy1 dev1 obs1 (Some c))
                     = Inr (bits, randint (nat s) snapshots (length (m_wires obs1)))
                  \<and> length bits = snapshots"
    if "\<forall>ops rotations d. \<exists>state. k_apply k1 ops rotations d = Inr state"
      "\<forall>d. self_wires d = self_wires dev1 \<and> self_shots d = Some 1 \<longrightarrow>
                (\<exists>row rest. k_generate_samples k1 d = Inr (row # rest)
                    \<and> length (self_wires dev1) \<le> length row)"
      "\<forall>rows cols. length (randint (nat s) rows cols) = rows
                  \<and> (\<forall>row \<in> set (randint (nat s) rows cols).
                        length row = cols \<and> (\<forall>x \<in> set row. 0 \<le> x \<and> x < 3))"
      "set (m_wires obs1) \<subseteq> set (self_wires dev1)"
      "m_seed obs1 = Some s" "0 \<le> s" "s < 2 ^ 32" "self_shots dev1 = Some snapshots"
    by (rule classical_shadow_ok) (use that in blast)+
  from same labels returns show ?thesis by blast
qed

theorem classical_shadow_recipes_reproducible_witness:
  "m_seed shadow_measurement = Some 42
   \<and> self_shots example_device = self_shots labelled_device
   \<and> fst (classical_shadow ideal_kernel example_randint pauli_gates 7 example_device
             shadow_measurement (Some shadow_only))
        = Inr ([[0, 0], [0, 0], [0, 0], [0, 0]], [[0, 1], [2, 0], [1, 2], [0, 1]])
   \<and> fst (classical_shadow ideal_kernel example_randint (\<lambda>i wire. []) 9 labelled_device
             shadow_measurement (Some shadow_with_expval))
        = Inr ([[0, 0], [0, 0], [0, 0], [0, 0]], example_randint 42 4 2)
   \<and> [[0, 1], [2, 0], [1, 2], [0, 1]] = example_randint 42 4 2
   \<and> list_all (list_all (\<lambda>x. x \<in> {0, 1, 2})) [[0, 1], [2, 0], [1, 2], [0, 1 :: int]]
   \<and> set (m_wires shadow_measurement) \<subseteq> set (self_wires example_device)
   \<and> (0 :: int) \<le> 42 \<and> (42 :: int) < 2 ^ 32 \<and> self_shots example_device = Some 4
   \<and> (\<exists>bits. fst (classical_shadow ideal_kernel example_randint pauli_gates 7 example_device
                     shadow_measurement (Some shadow_only))
                = Inr (bits, example_randint (nat 42) 4 (length (m_wires shadow_measurement)))
             \<and> length bits = 4)"
proof -
  have h1: "m_seed shadow_measurement = Some 42"
    and h2: "self_shots example_device = self_shots labelled_device"
    and h3: "length (m_wires shadow_measurement) = length (m_wires shadow_measurement)"
    and h4: "set (m_wires shadow_measurement) \<subseteq> set (self_wires example_device)"
    and h5: "(0 :: int) \<le> 42" and h6: "(42 :: int) < 2 ^ 32"
    and h7: "self_shots example_device = Some 4"
    by (simp_all add: shadow_measurement_def example_device_def labelled_device_def)
  have r1: "fst (classical_shadow ideal_kernel example_randint pauli_gates 7 example_device
             shadow_measurement (Some shadow_only))
        = Inr ([[0, 0], [0, 0], [0, 0], [0, 0]], [[0, 1], [2, 0], [1, 2], [0, 1]])"
    by code_simp
  have r2: "fst (classical_shadow ideal_kernel example_randint (\<lambda>i wire. []) 9 labelled_device
             shadow_measurement (Some shadow_with_expval))
        = Inr ([[0, 0], [0, 0], [0, 0], [0, 0]], example_randint 42 4 2)"
    by code_simp
  have labels: "\<forall>seed rows cols. \<forall>row \<in> set (example_randint seed rows cols).
                  \<forall>x \<in> set row. 0 \<le> x \<and> x < 3"
    by (auto simp: example_randint_def)
  have apply_ok: "\<forall>ops rotations d. \<exists>state. k_apply ideal_kernel ops rotations d = Inr state"
    by (simp add: ideal_kernel_def)
  have samples_ok: "\<forall>d. self_wires d = self_wires example_device \<and> self_shots d = Some 1 \<longrightarrow>
                (\<exists>row rest. k_generate_samples ideal_kernel d = Inr (row # rest)
                    \<and> length (self_wires example_device) \<le> length row)"
    by (simp add: ideal_kernel_def)
  have shape: "\<forall>rows cols. length (example_randint (nat 42) rows cols) = rows
                  \<and> (\<forall>row \<in> set (example_randint (nat 42) rows cols).
                        length row = cols \<and> (\<forall>x \<in> set row. 0 \<le> x \<and> x < 3))"
    by (auto simp: example_randint_def)
  note t = classical_shadow_recipes_reproducible
    [where ?obs1.0 = shadow_measurement and ?obs2.0 = shadow_measurement and s = 42
       and ?dev1.0 = example_device and ?dev2.0 = labelled_device
       and ?k1.0 = ideal_kernel and ?k2.0 = ideal_kernel and randint = example_randint
       and ?gates1.0 = pauli_gates and ?gates2.0 = "\<lambda>i wire. []"
       and ?entropy1.0 = 7 and ?entropy2.0 = 9
       and ?circuit1.0 = "Some shadow_only" and ?circuit2.0 = "Some shadow_with_expval"
       and ?bits1.0 = "[[0, 0], [0, 0], [0, 0], [0, 0]]"
       and ?recipes1.0 = "[[0, 1], [2, 0], [1, 2], [0, 1]]"
       and ?bits2.0 = "[[0, 0], [0, 0], [0, 0], [0, 0]]"
       and ?recipes2.0 = "example_randint 42 4 2"
       and snapshots = 4 and c = shadow_only]
  from t h1 h2 h3 r1 r2
  have c1: "[[0, 1], [2, 0], [1, 2], [0, 1]] = example_randint 42 4 2"
    by blast
  from t labels r1
  have "\<forall>row \<in> set [[0, 1], [2, 0], [1, 2], [0, 1 :: int]]. \<forall>x \<in> set row. x \<in> {0, 1, 2}"
    by blast
  then have c2: "list_all (list_all (\<lambda>x. x \<in> {0, 1, 2})) [[0, 1], [2, 0], [1, 2], [0, 1 :: int]]"
    unfolding list_all_iff by blast
  from t apply_ok samples_ok shape h4 h1 h5 h6 h7
  have c3: "\<exists>bits. fst (classical_shadow ideal_kernel example_randint pauli_gates 7 example_device
                     shadow_measurement (Some shadow_only))
                = Inr (bits, example_randint (nat 42) 4 (length (m_wires shadow_measurement)))
             \<and> length bits = 4"
    by blast
  show ?thesis
    by (intro conjI) (fact h1 h2 h4 h5 h6 h7 r1 r2 c1 c2 c3)+
qed

lemma classical_shadow_example:
  "classical_shadow ideal_kernel example_randint pauli_gates 7 example_device shadow_measurement
     (Some shadow_only)
     = (Inr ([[0, 0], [0, 0], [0, 0], [0, 0]], [[0, 1], [2, 0], [1, 2], [0, 1]]),
        [Reset, ApplyGates, GenerateSamples, Reset, ApplyGates, GenerateSamples,
         Reset, ApplyGates, GenerateSamples, Reset, ApplyGates, GenerateSamples])"
  by code_simp

end
